theory Spec2Isabelle
  imports Main "HOL-Library.Sublist"
begin

section \<open>Python values, errors and string primitives\<close>

text \<open>
  The statement builders of \<^verbatim>\<open>lib/mysqlx/statement.py\<close> work on dynamically typed
  Python values. The values that reach the code modelled here are JSON-like: scalars,
  lists and dictionaries, plus the document wrapper \<^verbatim>\<open>DbDoc\<close>. A dictionary is an
  association list in insertion order; a well-formed one has distinct keys. \<open>PyRef\<close> is a
  reference to a list or dictionary object held in a store, for the places where the
  identity of an object matters; in a value it is an object of no further structure.
\<close>

datatype pyval =
    PyNone
  | PyBool bool
  | PyInt int
  | PyStr string
  | PyList "pyval list"
  | PyDict "(string \<times> pyval) list"
  | PyDoc "(string \<times> pyval) list"
  | PyRef nat

type_synonym pydict = "(string \<times> pyval) list"

text \<open>
  Exceptions are values. \<^verbatim>\<open>ProgrammingError\<close> carries its message template and the
  arguments given to \<^verbatim>\<open>str.format\<close>, so that what a message names can be read off.
\<close>

datatype error =
    ProgrammingError string "pyval list"
  | NotSupportedError string
  | IndexError
  | KeyError string
  | ValueError
  | TypeError
  | AttributeError
  | RecursionError
  | OtherError string

definition backtick :: char where
  "backtick = CHR 0x60"

definition dquote :: char where
  "dquote = CHR 0x22"

text \<open>\<^verbatim>\<open>sub in s\<close> on strings: \<^verbatim>\<open>sub\<close> occurs in \<^verbatim>\<open>s\<close> as a contiguous run.\<close>

fun contains :: "string \<Rightarrow> string \<Rightarrow> bool" where
  "contains sub [] = (sub = [])"
| "contains sub (c # cs) = (prefix sub (c # cs) \<or> contains sub cs)"

text \<open>
  \<^verbatim>\<open>s.split(d, 1)\<close> for a non-empty separator \<^verbatim>\<open>d\<close>: the text before and after the
  first occurrence of \<^verbatim>\<open>d\<close>, or the whole text alone when \<^verbatim>\<open>d\<close> does not occur.
\<close>

fun find_sep :: "string \<Rightarrow> string \<Rightarrow> (string \<times> string) option" where
  "find_sep d [] = None"
| "find_sep d (c # cs) =
     (if prefix d (c # cs) then Some ([], drop (length d) (c # cs))
      else (case find_sep d cs of
              None \<Rightarrow> None
            | Some (l, r) \<Rightarrow> Some (c # l, r)))"

definition split_once :: "string \<Rightarrow> string \<Rightarrow> string list" where
  "split_once d s = (case find_sep d s of None \<Rightarrow> [s] | Some (l, r) \<Rightarrow> [l, r])"

text \<open>\<^verbatim>\<open>s.strip(chars)\<close>: drop leading and trailing characters that occur in \<^verbatim>\<open>chars\<close>.\<close>

definition strip :: "string \<Rightarrow> string \<Rightarrow> string" where
  "strip chars s =
     rev (dropWhile (\<lambda>c. c \<in> set chars) (rev (dropWhile (\<lambda>c. c \<in> set chars) s)))"

text \<open>\<^verbatim>\<open>s.replace(old, new)\<close> for a one-character \<^verbatim>\<open>old\<close>, the only form the source uses.\<close>

definition replace_char :: "char \<Rightarrow> string \<Rightarrow> string \<Rightarrow> string" where
  "replace_char old new s = concat (map (\<lambda>c. if c = old then new else [c]) s)"


section \<open>Identifier quoting\<close>

text \<open>
  \<^verbatim>\<open>is_quoted_identifier\<close> reads \<^verbatim>\<open>identifier[0]\<close> and \<^verbatim>\<open>identifier[-1]\<close>, which raise
  \<^verbatim>\<open>IndexError\<close> on the empty string.
\<close>

definition is_quoted_identifier :: "string \<Rightarrow> string \<Rightarrow> error + bool" where
  "is_quoted_identifier identifier sql_mode =
     (if identifier = [] then Inl IndexError
      else if contains ''ANSI_QUOTES'' sql_mode
      then Inr ((hd identifier = backtick \<and> last identifier = backtick) \<or>
                (hd identifier = dquote \<and> last identifier = dquote))
      else Inr (hd identifier = backtick \<and> last identifier = backtick))"

definition quote_identifier :: "string \<Rightarrow> string \<Rightarrow> error + string" where
  "quote_identifier identifier sql_mode =
     (if length identifier = 0 then Inr [backtick, backtick]
      else (case is_quoted_identifier identifier sql_mode of
              Inl e \<Rightarrow> Inl e
            | Inr True \<Rightarrow> Inr identifier
            | Inr False \<Rightarrow>
                if contains ''ANSI_QUOTES'' sql_mode
                then Inr ([dquote] @ replace_char dquote [dquote, dquote] identifier @ [dquote])
                else Inr ([backtick] @ replace_char backtick [backtick, backtick] identifier
                          @ [backtick])))"

text \<open>The quote character a mode wraps with, as the specification words it.\<close>

definition mode_quote :: "string \<Rightarrow> char" where
  "mode_quote sql_mode = (if contains ''ANSI_QUOTES'' sql_mode then dquote else backtick)"

text \<open>
  \<^verbatim>\<open>parse_table_name\<close>. The source tests \<^verbatim>\<open>len(temp) is 1\<close>; in CPython the small
  integers are shared objects, so the identity test agrees with \<^verbatim>\<open>len(temp) == 1\<close>.
  The separator is never empty.
\<close>

definition parse_table_name :: "string \<Rightarrow> string \<Rightarrow> string \<Rightarrow> string \<times> string" where
  "parse_table_name default_schema table_name sql_mode =
     (let quote = (if contains ''ANSI_QUOTES'' sql_mode then [dquote] else [backtick]);
          delimiter = (if contains quote table_name then ''.'' @ quote else ''.'');
          temp = split_once delimiter table_name
      in (if length temp = 1 then default_schema else strip quote (hd temp),
          strip quote (last temp)))"


section \<open>Collaborators\<close>

text \<open>
  The expression parser (\<^verbatim>\<open>ExprParser\<close> of \<^verbatim>\<open>expr.py\<close>) is outside this file of the
  repository. It is a parameter: each entry point takes the text and the table-mode flag
  and returns the parsed tree, of an opaque type \<open>'e\<close>, or the exception it raises.
  \<^verbatim>\<open>expr\<close> also yields the placeholder map \<^verbatim>\<open>placeholder_name_to_position\<close>.
\<close>

record 'e expr_parser =
  expr :: "string \<Rightarrow> bool \<Rightarrow> error + ('e \<times> (string \<times> nat) list)"
  parse_expr_list :: "string \<Rightarrow> bool \<Rightarrow> error + 'e"
  parse_order_spec :: "string \<Rightarrow> bool \<Rightarrow> error + 'e"
  parse_table_select_projection :: "string \<Rightarrow> bool \<Rightarrow> error + 'e"

text \<open>
  The connection is a parameter as well: a function from the call made on it to the result
  it returns or the exception it raises. \<^verbatim>\<open>execute\<close> returns its outcome together with
  the calls it made on the connection, in order.
\<close>

datatype 'a call =
    Send_insert 'a
  | Update 'a
  | Delete 'a
  | Find 'a
  | Execute_nonquery string string bool pydict

text \<open>\<^verbatim>\<open>Result()\<close> built without a connection is the empty result.\<close>

datatype 'r result = Result_empty | Result_of 'r

type_synonym ('a, 'r) connection = "'a call \<Rightarrow> error + 'r result"


section \<open>Statement builders\<close>

text \<open>
  A mutator changes the builder and then returns it or raises: its model returns the
  exception raised, if any, and the builder as the call leaves it.
\<close>

type_synonym 's outcome = "error option \<times> 's"


record target =
  target_name :: string
  schema_name :: string

text \<open>Class \<^verbatim>\<open>Statement\<close>.\<close>

record statement =
  target :: target
  doc_based :: bool

text \<open>
  Class \<^verbatim>\<open>FilterableStatement\<close>. The attributes \<^verbatim>\<open>_where\<close> and \<^verbatim>\<open>_where_expr\<close> do not
  exist until \<^verbatim>\<open>where\<close> assigns them: they are \<open>None\<close> here until then, and reading one
  that is missing raises \<^verbatim>\<open>AttributeError\<close>. A binding is the pair of the values stored
  under \<^verbatim>\<open>"name"\<close> and \<^verbatim>\<open>"value"\<close>.
\<close>

record 'e filterable_statement = statement +
  binding_map :: "(string \<times> nat) list"
  bindings :: "(pyval \<times> pyval) list"
  having :: "'e option"
  grouping_str :: string
  grouping :: "'e option"
  limit_offset :: int
  limit_row_count :: int
  projection_str :: string
  projection_expr :: "'e option"
  sort_str :: string
  sort_expr :: "'e option"
  has_bindings :: bool
  has_limit :: bool
  has_group_by :: bool
  has_having :: bool
  has_projection :: bool
  has_sort :: bool
  has_where :: bool
  where_str :: "string option"
  where_expr :: "'e option"

text \<open>\<^verbatim>\<open>flexible_params\<close>: a single list argument stands for its elements.\<close>

fun flexible_params :: "pyval list \<Rightarrow> pyval list" where
  "flexible_params [PyList xs] = xs"
| "flexible_params values = values"

text \<open>\<^verbatim>\<open>sep.join(xs)\<close>: every element must be a string, else \<^verbatim>\<open>TypeError\<close>.\<close>

fun join :: "string \<Rightarrow> pyval list \<Rightarrow> error + string" where
  "join sep [] = Inr []"
| "join sep [PyStr x] = Inr x"
| "join sep (PyStr x # y # ys) =
     (case join sep (y # ys) of Inl e \<Rightarrow> Inl e | Inr r \<Rightarrow> Inr (x @ sep @ r))"
| "join sep (_ # _) = Inl TypeError"

text \<open>
  \<^verbatim>\<open>FilterableStatement.where\<close>. The flag and the text are assigned before the parser
  runs; only \<^verbatim>\<open>ValueError\<close> is turned into \<^verbatim>\<open>ProgrammingError\<close>.
\<close>

definition where_stmt ::
  "'e expr_parser \<Rightarrow> string \<Rightarrow> ('e, 'z) filterable_statement_scheme \<Rightarrow>
   ('e, 'z) filterable_statement_scheme outcome" where
  "where_stmt P condition self =
     (let self = self\<lparr>has_where := True\<rparr>;
          self = self\<lparr>where_str := Some condition\<rparr>
      in (case expr P condition (\<not> doc_based self) of
            Inl e \<Rightarrow>
              if e = ValueError then (Some (ProgrammingError ''Invalid condition'' []), self)
              else (Some e, self)
          | Inr (tree, placeholders) \<Rightarrow>
              (None, self\<lparr>where_expr := Some tree, binding_map := placeholders\<rparr>)))"

text \<open>\<^verbatim>\<open>FilterableStatement.__init__\<close>; \<^verbatim>\<open>if condition:\<close> skips \<^verbatim>\<open>None\<close> and the empty text.\<close>

definition filterable_init ::
  "'e expr_parser \<Rightarrow> target \<Rightarrow> bool \<Rightarrow> string option \<Rightarrow> 'e filterable_statement outcome" where
  "filterable_init P tgt doc condition =
     (let self = \<lparr>target = tgt, doc_based = doc,
                  binding_map = [], bindings = [], having = None, grouping_str = [],
                  grouping = None, limit_offset = 0, limit_row_count = 0,
                  projection_str = [], projection_expr = None, sort_str = [],
                  sort_expr = None, has_bindings = False, has_limit = False,
                  has_group_by = False, has_having = False, has_projection = False,
                  has_sort = False, has_where = False, where_str = None, where_expr = None\<rparr>
      in (case condition of
            None \<Rightarrow> (None, self)
          | Some c \<Rightarrow> if c \<noteq> [] then where_stmt P c self else (None, self)))"

definition limit ::
  "int \<Rightarrow> int \<Rightarrow> ('e, 'z) filterable_statement_scheme \<Rightarrow>
   ('e, 'z) filterable_statement_scheme outcome" where
  "limit row_count offset self =
     (None, self\<lparr>has_limit := True, limit_row_count := row_count, limit_offset := offset\<rparr>)"

definition sort_stmt ::
  "'e expr_parser \<Rightarrow> pyval list \<Rightarrow> ('e, 'z) filterable_statement_scheme \<Rightarrow>
   ('e, 'z) filterable_statement_scheme outcome" where
  "sort_stmt P sort_clauses self =
     (let sort_clauses = flexible_params sort_clauses;
          self = self\<lparr>has_sort := True\<rparr>
      in (case join '','' sort_clauses of
            Inl e \<Rightarrow> (Some e, self)
          | Inr s \<Rightarrow>
              (let self = self\<lparr>sort_str := s\<rparr>
               in (case parse_order_spec P (sort_str self) (\<not> doc_based self) of
                     Inl e \<Rightarrow> (Some e, self)
                   | Inr t \<Rightarrow> (None, self\<lparr>sort_expr := Some t\<rparr>)))))"

definition set_group_by ::
  "'e expr_parser \<Rightarrow> pyval list \<Rightarrow> ('e, 'z) filterable_statement_scheme \<Rightarrow>
   ('e, 'z) filterable_statement_scheme outcome" where
  "set_group_by P field_args self =
     (let field_args = flexible_params field_args;
          self = self\<lparr>has_group_by := True\<rparr>
      in (case join '','' field_args of
            Inl e \<Rightarrow> (Some e, self)
          | Inr s \<Rightarrow>
              (let self = self\<lparr>grouping_str := s\<rparr>
               in (case parse_expr_list P (grouping_str self) (\<not> doc_based self) of
                     Inl e \<Rightarrow> (Some e, self)
                   | Inr t \<Rightarrow> (None, self\<lparr>grouping := Some t\<rparr>)))))"

definition set_having ::
  "'e expr_parser \<Rightarrow> string \<Rightarrow> ('e, 'z) filterable_statement_scheme \<Rightarrow>
   ('e, 'z) filterable_statement_scheme outcome" where
  "set_having P condition self =
     (let self = self\<lparr>has_having := True\<rparr>
      in (case expr P condition (\<not> doc_based self) of
            Inl e \<Rightarrow> (Some e, self)
          | Inr (tree, placeholders) \<Rightarrow> (None, self\<lparr>having := Some tree\<rparr>)))"



text \<open>
  \<^verbatim>\<open>FilterableStatement.bind\<close> and \<^verbatim>\<open>_bind_single\<close>. \<^verbatim>\<open>json.loads\<close> and the text of a
  \<^verbatim>\<open>DbDoc\<close> are parameters. A tuple read out of range raises \<^verbatim>\<open>IndexError\<close>.
\<close>

definition index :: "'a list \<Rightarrow> nat \<Rightarrow> error + 'a" where
  "index xs i = (if i < length xs then Inr (xs ! i) else Inl IndexError)"

text \<open>
  The loop \<^verbatim>\<open>for key in res.keys(): self.bind(key, res[key])\<close>: one two-argument
  \<^verbatim>\<open>bind\<close> for each entry of the decoded dictionary, in its order.
\<close>

fun bind_items ::
  "pydict \<Rightarrow> ('e, 'z) filterable_statement_scheme \<Rightarrow> ('e, 'z) filterable_statement_scheme" where
  "bind_items [] self = self"
| "bind_items ((key, val) # res) self =
     bind_items res (self\<lparr>has_bindings := True,
                          bindings := bindings self @ [(PyStr key, val)]\<rparr>)"

definition bind_single_str ::
  "(string \<Rightarrow> error + pyval) \<Rightarrow> string \<Rightarrow> ('e, 'z) filterable_statement_scheme \<Rightarrow>
   ('e, 'z) filterable_statement_scheme outcome" where
  "bind_single_str json_loads obj self =
     (case json_loads obj of
        Inl e \<Rightarrow>
          if e = ValueError then (Some (ProgrammingError ''Invalid JSON string to bind'' []), self)
          else (Some e, self)
      | Inr (PyDict res) \<Rightarrow> (None, bind_items res self)
      | Inr _ \<Rightarrow> (Some (ProgrammingError ''Invalid JSON string to bind'' []), self))"

text \<open>
  For a \<^verbatim>\<open>DbDoc\<close> the source calls \<^verbatim>\<open>self.bind(str(obj))\<close>: one argument, a string, so
  that call sets the flag again and reaches the string branch of \<^verbatim>\<open>_bind_single\<close>.
\<close>

definition bind_single ::
  "(string \<Rightarrow> error + pyval) \<Rightarrow> (pydict \<Rightarrow> string) \<Rightarrow> pyval \<Rightarrow>
   ('e, 'z) filterable_statement_scheme \<Rightarrow> ('e, 'z) filterable_statement_scheme outcome" where
  "bind_single json_loads doc_str obj self =
     (case obj of
        PyDoc d \<Rightarrow> bind_single_str json_loads (doc_str d) (self\<lparr>has_bindings := True\<rparr>)
      | PyStr txt \<Rightarrow> bind_single_str json_loads txt self
      | _ \<Rightarrow> (Some (ProgrammingError ''Invalid JSON string or object to bind'' []), self))"

definition bind_stmt ::
  "(string \<Rightarrow> error + pyval) \<Rightarrow> (pydict \<Rightarrow> string) \<Rightarrow> pyval list \<Rightarrow>
   ('e, 'z) filterable_statement_scheme \<Rightarrow> ('e, 'z) filterable_statement_scheme outcome" where
  "bind_stmt json_loads doc_str args self =
     (let self = self\<lparr>has_bindings := True\<rparr>;
          count = length args
      in if count = 1 then
           (case index args 0 of
              Inl e \<Rightarrow> (Some e, self)
            | Inr obj \<Rightarrow> bind_single json_loads doc_str obj self)
         else if count > 2 then
           (Some (ProgrammingError ''Invalid number of arguments to bind'' []), self)
         else
           (case index args 0 of
              Inl e \<Rightarrow> (Some e, self)
            | Inr name \<Rightarrow>
                (case index args 1 of
                   Inl e \<Rightarrow> (Some e, self)
                 | Inr val \<Rightarrow> (None, self\<lparr>bindings := bindings self @ [(name, val)]\<rparr>))))"

text \<open>
  \<^verbatim>\<open>execute\<close> of \<^verbatim>\<open>ModifyStatement\<close>, \<^verbatim>\<open>UpdateStatement\<close>, \<^verbatim>\<open>RemoveStatement\<close> and
  \<^verbatim>\<open>DeleteStatement\<close>. Each reads only the flag, so the builder may carry any further
  attributes (the update operations of the first two).
\<close>

definition modify_execute ::
  "(('e, 'z) filterable_statement_scheme, 'r) connection \<Rightarrow>
   ('e, 'z) filterable_statement_scheme \<Rightarrow>
   (error + 'r result) \<times> ('e, 'z) filterable_statement_scheme call list" where
  "modify_execute conn self =
     (if \<not> has_where self
      then (Inl (ProgrammingError ''No condition was found for modify'' []), [])
      else (conn (Update self), [Update self]))"

definition update_execute ::
  "(('e, 'z) filterable_statement_scheme, 'r) connection \<Rightarrow>
   ('e, 'z) filterable_statement_scheme \<Rightarrow>
   (error + 'r result) \<times> ('e, 'z) filterable_statement_scheme call list" where
  "update_execute conn self =
     (if \<not> has_where self
      then (Inl (ProgrammingError ''No condition was found for update'' []), [])
      else (conn (Update self), [Update self]))"

definition remove_execute ::
  "(('e, 'z) filterable_statement_scheme, 'r) connection \<Rightarrow>
   ('e, 'z) filterable_statement_scheme \<Rightarrow>
   (error + 'r result) \<times> ('e, 'z) filterable_statement_scheme call list" where
  "remove_execute conn self =
     (if \<not> has_where self
      then (Inl (ProgrammingError ''No condition was found for remove'' []), [])
      else (conn (Delete self), [Delete self]))"

definition delete_execute ::
  "(('e, 'z) filterable_statement_scheme, 'r) connection \<Rightarrow>
   ('e, 'z) filterable_statement_scheme \<Rightarrow>
   (error + 'r result) \<times> ('e, 'z) filterable_statement_scheme call list" where
  "delete_execute conn self =
     (if \<not> has_where self
      then (Inl (ProgrammingError ''No condition was found for delete'' []), [])
      else (conn (Delete self), [Delete self]))"

text \<open>
  Class \<^verbatim>\<open>ReadStatement\<close>. The two lock attributes carry the names of their getters.
\<close>

record 'e read_statement = "'e filterable_statement" +
  is_lock_exclusive :: bool
  is_lock_shared :: bool

definition read_init ::
  "'e expr_parser \<Rightarrow> target \<Rightarrow> bool \<Rightarrow> string option \<Rightarrow> 'e read_statement outcome" where
  "read_init P tgt doc condition =
     (case filterable_init P tgt doc condition of
        (raised, base) \<Rightarrow>
          (raised, filterable_statement.extend base (read_statement.fields False False)))"

definition lock_shared ::
  "('e, 'z) read_statement_scheme \<Rightarrow> ('e, 'z) read_statement_scheme outcome" where
  "lock_shared self = (None, self\<lparr>is_lock_exclusive := False, is_lock_shared := True\<rparr>)"

definition lock_exclusive ::
  "('e, 'z) read_statement_scheme \<Rightarrow> ('e, 'z) read_statement_scheme outcome" where
  "lock_exclusive self = (None, self\<lparr>is_lock_exclusive := True, is_lock_shared := False\<rparr>)"

definition group_by ::
  "'e expr_parser \<Rightarrow> pyval list \<Rightarrow> ('e, 'z) read_statement_scheme \<Rightarrow>
   ('e, 'z) read_statement_scheme outcome" where
  "group_by P field_args self = set_group_by P field_args self"

definition having_stmt ::
  "'e expr_parser \<Rightarrow> string \<Rightarrow> ('e, 'z) read_statement_scheme \<Rightarrow>
   ('e, 'z) read_statement_scheme outcome" where
  "having_stmt P condition self = set_having P condition self"

definition read_execute ::
  "(('e, 'z) read_statement_scheme, 'r) connection \<Rightarrow> ('e, 'z) read_statement_scheme \<Rightarrow>
   (error + 'r result) \<times> ('e, 'z) read_statement_scheme call list" where
  "read_execute conn self = (conn (Find self), [Find self])"







text \<open>
  Classes \<^verbatim>\<open>WriteStatement\<close> and \<^verbatim>\<open>AddStatement\<close>. The constructor of \<^verbatim>\<open>DbDoc\<close> is a
  parameter.
\<close>

record write_statement = statement +
  stmt_values :: "pyval list"
  upsert :: bool

record add_statement = write_statement +
  ids :: "pyval list"

definition add_init :: "target \<Rightarrow> add_statement" where
  "add_init collection =
     \<lparr>target = collection, doc_based = True, stmt_values = [], upsert = False, ids = []\<rparr>"

fun add_each ::
  "(pyval \<Rightarrow> error + pyval) \<Rightarrow> pyval list \<Rightarrow> 'z add_statement_scheme \<Rightarrow>
   'z add_statement_scheme outcome" where
  "add_each dbdoc [] self = (None, self)"
| "add_each dbdoc (PyDoc d # vals) self =
     add_each dbdoc vals (self\<lparr>stmt_values := stmt_values self @ [PyDoc d]\<rparr>)"
| "add_each dbdoc (val # vals) self =
     (case dbdoc val of
        Inl e \<Rightarrow> (Some e, self)
      | Inr doc \<Rightarrow> add_each dbdoc vals (self\<lparr>stmt_values := stmt_values self @ [doc]\<rparr>))"

definition add ::
  "(pyval \<Rightarrow> error + pyval) \<Rightarrow> pyval list \<Rightarrow> 'z add_statement_scheme \<Rightarrow>
   'z add_statement_scheme outcome" where
  "add dbdoc vals self = add_each dbdoc (flexible_params vals) self"

definition add_execute ::
  "('z add_statement_scheme, 'r) connection \<Rightarrow> 'z add_statement_scheme \<Rightarrow>
   (error + 'r result) \<times> 'z add_statement_scheme call list" where
  "add_execute conn self =
     (if length (stmt_values self) = 0 then (Inr Result_empty, [])
      else (conn (Send_insert self), [Send_insert self]))"


text \<open>
  A sequence of lock calls on a read statement, applied in order.
\<close>

datatype lock_call = Lock_shared | Lock_exclusive

fun apply_lock ::
  "lock_call \<Rightarrow> ('e, 'z) read_statement_scheme \<Rightarrow> ('e, 'z) read_statement_scheme" where
  "apply_lock Lock_shared self = snd (lock_shared self)"
| "apply_lock Lock_exclusive self = snd (lock_exclusive self)"

definition apply_locks ::
  "lock_call list \<Rightarrow> ('e, 'z) read_statement_scheme \<Rightarrow> ('e, 'z) read_statement_scheme" where
  "apply_locks cs self = foldl (\<lambda>s c. apply_lock c s) self cs"


section \<open>Index creation\<close>

text \<open>Truth value of a Python value; an object without a length is true.\<close>

fun truthy :: "pyval \<Rightarrow> bool" where
  "truthy PyNone = False"
| "truthy (PyBool b) = b"
| "truthy (PyInt i) = (i \<noteq> 0)"
| "truthy (PyStr s) = (s \<noteq> [])"
| "truthy (PyList xs) = (xs \<noteq> [])"
| "truthy (PyDict d) = (d \<noteq> [])"
| "truthy (PyDoc d) = True"
| "truthy (PyRef a) = True"

text \<open>
  Dictionary primitives: \<^verbatim>\<open>key in d\<close>, \<^verbatim>\<open>del d[key]\<close> for a key that may be absent,
  \<^verbatim>\<open>d.pop(key)\<close>, where \<open>None\<close> stands for \<^verbatim>\<open>KeyError\<close>, and \<^verbatim>\<open>d.pop(key, default)\<close>.
  A \<^verbatim>\<open>pop\<close> returns the value and the dictionary as the call leaves it.
\<close>

definition has_key :: "string \<Rightarrow> pydict \<Rightarrow> bool" where
  "has_key key d = (key \<in> set (map fst d))"

definition del_key :: "string \<Rightarrow> pydict \<Rightarrow> pydict" where
  "del_key key d = filter (\<lambda>kv. fst kv \<noteq> key) d"

definition pop :: "string \<Rightarrow> pydict \<Rightarrow> (pyval \<times> pydict) option" where
  "pop key d =
     (case map_of d key of
        None \<Rightarrow> None
      | Some v \<Rightarrow> Some (v, del_key key d))"

definition pop_default :: "string \<Rightarrow> pyval \<Rightarrow> pydict \<Rightarrow> pyval \<times> pydict" where
  "pop_default key dflt d = (case pop key d of None \<Rightarrow> (dflt, d) | Some r \<Rightarrow> r)"

text \<open>\<^verbatim>\<open>s.upper()\<close> on ASCII text; a value that is not a string has no such method.\<close>

definition upper_char :: "char \<Rightarrow> char" where
  "upper_char c =
     (case map_of (zip ''abcdefghijklmnopqrstuvwxyz'' ''ABCDEFGHIJKLMNOPQRSTUVWXYZ'') c of
        None \<Rightarrow> c
      | Some u \<Rightarrow> u)"

definition upper :: "string \<Rightarrow> string" where
  "upper s = map upper_char s"

definition str_upper :: "pyval \<Rightarrow> error + string" where
  "str_upper v = (case v of PyStr s \<Rightarrow> Inr (upper s) | _ \<Rightarrow> Inl AttributeError)"



definition ERR_INVALID_INDEX_NAME :: string where
  "ERR_INVALID_INDEX_NAME = ''The given index name \"{}\" is not valid''"

text \<open>
  The name check. The parameter \<open>is_ident\<close> stands for parsing the name and asking whether
  the parsed expression is of type \<^verbatim>\<open>IDENT\<close>; \<^verbatim>\<open>ValueError\<close> and \<^verbatim>\<open>AttributeError\<close> from
  the parser are caught. The result is the exception raised, if any.
\<close>

definition check_index_name :: "(string \<Rightarrow> error + bool) \<Rightarrow> string \<Rightarrow> error option" where
  "check_index_name is_ident name =
     (case is_ident name of
        Inl e \<Rightarrow>
          if e = ValueError \<or> e = AttributeError
          then Some (ProgrammingError ERR_INVALID_INDEX_NAME [PyStr name])
          else Some e
      | Inr ident \<Rightarrow>
          if \<not> ident then Some (ProgrammingError ERR_INVALID_INDEX_NAME [PyStr name])
          else None)"

text \<open>
  The optional members \<^verbatim>\<open>collation\<close>, \<^verbatim>\<open>options\<close> and \<^verbatim>\<open>srid\<close> of a field follow one
  pattern: when the key is present, the upper-cased field type must be legal for it, and
  then the member moves from the field description to the constraint.
\<close>

definition optional_member ::
  "string \<Rightarrow> (string \<Rightarrow> bool) \<Rightarrow> string \<Rightarrow> pyval \<Rightarrow> pydict \<Rightarrow> pydict \<Rightarrow>
   (error + pydict) \<times> pydict" where
  "optional_member key legal msg ctype constraint field_desc =
     (if has_key key field_desc then
        (case str_upper ctype of
           Inl e \<Rightarrow> (Inl e, field_desc)
         | Inr T \<Rightarrow>
             if \<not> legal T then (Inl (ProgrammingError msg []), field_desc)
             else (case pop key field_desc of
                     None \<Rightarrow> (Inl (KeyError key), field_desc)
                   | Some (v, rest) \<Rightarrow> (Inr (constraint @ [(key, v)]), rest)))
      else (Inr constraint, field_desc))"

text \<open>
  The body of the loop over the field descriptions, for one of them: the constraint built,
  or the exception raised, and the field description as the body leaves it. \<open>truth\<close> is
  the truth value of a Python value.
\<close>

definition field_step ::
  "(pyval \<Rightarrow> bool) \<Rightarrow> pyval \<Rightarrow> pydict \<Rightarrow> (error + pydict) \<times> pydict" where
  "field_step truth index_type field_desc =
     (case pop ''field'' field_desc of
        None \<Rightarrow> (Inl (KeyError ''field''), field_desc)
      | Some (member, fd1) \<Rightarrow>
     (case pop ''type'' fd1 of
        None \<Rightarrow> (Inl (KeyError ''type''), fd1)
      | Some (ctype, fd2) \<Rightarrow>
     (case pop_default ''required'' (PyBool False) fd2 of
        (required, fd3) \<Rightarrow>
     (let constraint = [(''member'', member), (''type'', ctype), (''required'', required)]
      in (case str_upper index_type of
            Inl e \<Rightarrow> (Inl e, fd3)
          | Inr T \<Rightarrow>
              if T = ''SPATIAL'' \<and> \<not> truth required then
                (Inl (ProgrammingError
                   ''Field member \"required\" must be set to \"True\" when index type is set to \"SPATIAL\"''
                   []), fd3)
              else if T = ''INDEX'' \<and> ctype = PyStr ''GEOJSON'' then
                (Inl (ProgrammingError
                   ''Index \"type\" must be set to \"SPATIAL\" when field type is set to \"GEOJSON\"''
                   []), fd3)
              else
                (case optional_member ''collation'' (prefix ''TEXT'')
                        ''The \"collation\" member can only be used when field  type is set to \"GEOJSON\"''
                        ctype constraint fd3 of
                   (Inl e, fd4) \<Rightarrow> (Inl e, fd4)
                 | (Inr c4, fd4) \<Rightarrow>
                (case optional_member ''options'' (\<lambda>T. T = ''GEOJSON'')
                        ''The \"options\" member can only be used when index type is set to \"GEOJSON\"''
                        ctype c4 fd4 of
                   (Inl e, fd5) \<Rightarrow> (Inl e, fd5)
                 | (Inr c5, fd5) \<Rightarrow>
                     optional_member ''srid'' (\<lambda>T. T = ''GEOJSON'')
                        ''The \"srid\" member can only be used when index type is set to \"GEOJSON\"''
                        ctype c5 fd5)))))))"

text \<open>The handler around the loop: a \<^verbatim>\<open>KeyError\<close> becomes a \<^verbatim>\<open>ProgrammingError\<close>.\<close>

definition inner_member_error :: "error \<Rightarrow> pydict \<Rightarrow> error" where
  "inner_member_error e field_desc =
     (case e of
        KeyError key \<Rightarrow>
          ProgrammingError ''Required inner member {} not found in constraint: {}''
            [PyStr key, PyDict field_desc]
      | _ \<Rightarrow> e)"


text \<open>
  The index type: \<^verbatim>\<open>self._index_desc.pop("type")\<close> if \<^verbatim>\<open>"type" in self._index_desc\<close>,
  else \<^verbatim>\<open>"INDEX"\<close>.
\<close>

definition pop_type :: "pydict \<Rightarrow> pyval \<times> pydict" where
  "pop_type d =
     (if has_key ''type'' d
      then (case pop ''type'' d of None \<Rightarrow> (PyStr ''INDEX'', d) | Some r \<Rightarrow> r)
      else (PyStr ''INDEX'', d))"




text \<open>
  The vocabulary of the validation rules, as the specification words them. A statement is
  rejected when \<^verbatim>\<open>execute\<close> raises without having called the connection. The entries of
  the \<^verbatim>\<open>fields\<close> list, the index type with its default, the \<^verbatim>\<open>required\<close> member with its
  default, and the constraint expected for a field description.
\<close>

definition rejected :: "(error + 'r) \<times> 'c list \<Rightarrow> bool" where
  "rejected r = (isl (fst r) \<and> snd r = [])"











section \<open>The store: the descriptor and its copy as objects\<close>

text \<open>
  Lists and dictionaries are objects: two names may denote the same one, and a \<^verbatim>\<open>pop\<close>
  through either changes it for both. The store holds the objects; an address is an index
  into it and a new object takes the next free address. The members of an object are
  scalars or references \<open>PyRef\<close> to other objects.
\<close>

datatype obj = ODict pydict | OList "pyval list"

type_synonym store = "obj list"

text \<open>Truth value of a value in a store: a list or dictionary object is true when not empty.\<close>

definition truthy_in :: "store \<Rightarrow> pyval \<Rightarrow> bool" where
  "truthy_in h v =
     (case v of
        PyRef a \<Rightarrow>
          (if a < length h
           then (case h ! a of ODict d \<Rightarrow> d \<noteq> [] | OList xs \<Rightarrow> xs \<noteq> [])
           else True)
      | _ \<Rightarrow> truthy v)"

text \<open>\<^verbatim>\<open>y.append(v)\<close> and \<^verbatim>\<open>y[key] = v\<close> on the object at an address.\<close>

definition list_append :: "nat \<Rightarrow> pyval \<Rightarrow> store \<Rightarrow> store" where
  "list_append y v h =
     (case h ! y of OList xs \<Rightarrow> h[y := OList (xs @ [v])] | ODict d \<Rightarrow> h)"

definition set_item :: "nat \<Rightarrow> string \<Rightarrow> pyval \<Rightarrow> store \<Rightarrow> store" where
  "set_item y key v h =
     (case h ! y of
        ODict d \<Rightarrow>
          h[y := ODict (if has_key key d
                        then map (\<lambda>kv. if fst kv = key then (key, v) else kv) d
                        else d @ [(key, v)])]
      | OList xs \<Rightarrow> h)"

text \<open>
  \<^verbatim>\<open>copy.deepcopy\<close> of the standard library, on the values of this model. A scalar is its
  own copy. For a list or a dictionary, the copy made earlier is returned if the memo has
  one; otherwise a new empty object is allocated and entered in the memo, and the copies
  of the members are added to it one by one. The first argument bounds the depth of the
  recursion, which Python bounds too: beyond it the call raises \<^verbatim>\<open>RecursionError\<close>.
  The members are read when the copy of the object starts; the copy itself writes only
  to the objects it allocates. A reference to no object does not occur in a Python run.
\<close>

definition ref_of :: "pyval \<Rightarrow> nat option" where
  "ref_of v = (case v of PyRef a \<Rightarrow> Some a | _ \<Rightarrow> None)"

function (sequential) deepcopy :: "nat \<Rightarrow> pyval \<Rightarrow> store \<times> (nat \<times> nat) list \<Rightarrow>
    (error + pyval) \<times> (store \<times> (nat \<times> nat) list)"
  and copy_items :: "nat \<Rightarrow> pyval list \<Rightarrow> nat \<Rightarrow> store \<times> (nat \<times> nat) list \<Rightarrow>
    error option \<times> (store \<times> (nat \<times> nat) list)"
  and copy_entries :: "nat \<Rightarrow> pydict \<Rightarrow> nat \<Rightarrow> store \<times> (nat \<times> nat) list \<Rightarrow>
    error option \<times> (store \<times> (nat \<times> nat) list)"
where
  "deepcopy n v st =
     (case ref_of v of
        None \<Rightarrow> (Inr v, st)
      | Some a \<Rightarrow>
          (case map_of (snd st) a of
             Some y \<Rightarrow> (Inr (PyRef y), st)
           | None \<Rightarrow>
               (case n of
                  0 \<Rightarrow> (Inl RecursionError, st)
                | Suc m \<Rightarrow>
                    if a < length (fst st) then
                      (case fst st ! a of
                         OList xs \<Rightarrow>
                           (case copy_items m xs (length (fst st))
                                   (fst st @ [OList []], (a, length (fst st)) # snd st) of
                              (Some e, st') \<Rightarrow> (Inl e, st')
                            | (None, st') \<Rightarrow> (Inr (PyRef (length (fst st))), st'))
                       | ODict d \<Rightarrow>
                           (case copy_entries m d (length (fst st))
                                   (fst st @ [ODict []], (a, length (fst st)) # snd st) of
                              (Some e, st') \<Rightarrow> (Inl e, st')
                            | (None, st') \<Rightarrow> (Inr (PyRef (length (fst st))), st')))
                    else (Inl (OtherError ''no such object''), st))))"
| "copy_items n [] y st = (None, st)"
| "copy_items n (x # xs) y st =
     (case deepcopy n x st of
        (Inl e, st') \<Rightarrow> (Some e, st')
      | (Inr v, st') \<Rightarrow> copy_items n xs y (list_append y v (fst st'), snd st'))"
| "copy_entries n [] y st = (None, st)"
| "copy_entries n (kx # d) y st =
     (case deepcopy n (snd kx) st of
        (Inl e, st') \<Rightarrow> (Some e, st')
      | (Inr v, st') \<Rightarrow> copy_entries n d y (set_item y (fst kx) v (fst st'), snd st'))"
  by pat_completeness auto
termination
  by (relation "inv_image (less_than <*lex*> less_than)
        (\<lambda>x. case x of
           Inl (n, v, st) \<Rightarrow> (2 * n, 0)
         | Inr (Inl (n, xs, y, st)) \<Rightarrow> (2 * n + 1, length xs)
         | Inr (Inr (n, d, y, st)) \<Rightarrow> (2 * n + 1, length d))") auto

declare deepcopy.simps [simp del]


text \<open>
  The statement over the store: \<^verbatim>\<open>_index_desc\<close> is the address of the statement's copy of
  the descriptor, \<^verbatim>\<open>_fields_desc\<close> the value popped from it.
\<close>

record stored_index_statement = statement +
  index_desc_at :: nat
  index_name_of :: "string option"
  fields_desc_val :: pyval

text \<open>
  \<^verbatim>\<open>__init__\<close>: the deep copy, then \<^verbatim>\<open>pop("fields", [])\<close> on the copy, where the default
  is a new empty list. The result comes with the store as the constructor leaves it.
\<close>

definition create_index_init_store ::
  "nat \<Rightarrow> target \<Rightarrow> string option \<Rightarrow> pyval \<Rightarrow> store \<Rightarrow>
   (error + stored_index_statement) \<times> store" where
  "create_index_init_store depth collection name desc h =
     (case deepcopy depth desc (h, []) of
        (Inl e, (h1, memo)) \<Rightarrow> (Inl e, h1)
      | (Inr (PyRef c), (h1, memo)) \<Rightarrow>
          if c < length h1 then
            (case h1 ! c of
               ODict d \<Rightarrow>
                 (case pop ''fields'' d of
                    Some (v, rest) \<Rightarrow>
                      (Inr \<lparr>target = collection, doc_based = True, index_desc_at = c,
                            index_name_of = name, fields_desc_val = v\<rparr>,
                       h1[c := ODict rest])
                  | None \<Rightarrow>
                      (Inr \<lparr>target = collection, doc_based = True, index_desc_at = c,
                            index_name_of = name, fields_desc_val = PyRef (length h1)\<rparr>,
                       h1 @ [OList []]))
             | OList xs \<Rightarrow> (Inl TypeError, h1))
          else (Inl (OtherError ''no such object''), h1)
      | (Inr v, (h1, memo)) \<Rightarrow> (Inl AttributeError, h1))"

text \<open>
  The loop over the field descriptions in the store: each is read at its address, the loop
  body runs on it, and what the body leaves of it is written back to the same address.
\<close>

fun constraints_loop_store ::
  "pyval \<Rightarrow> pyval list \<Rightarrow> store \<Rightarrow> pyval list \<Rightarrow> (error + pyval list) \<times> store" where
  "constraints_loop_store index_type [] h acc = (Inr acc, h)"
| "constraints_loop_store index_type (f # fs) h acc =
     (case f of
        PyRef a \<Rightarrow>
          if a < length h then
            (case h ! a of
               ODict fd \<Rightarrow>
                 (case field_step (truthy_in h) index_type fd of
                    (Inl e, fd') \<Rightarrow> (Inl (inner_member_error e fd'), h[a := ODict fd'])
                  | (Inr c, fd') \<Rightarrow>
                      constraints_loop_store index_type fs (h[a := ODict fd'])
                        (acc @ [PyDict c]))
             | OList xs \<Rightarrow> (Inl TypeError, h))
          else (Inl (OtherError ''no such object''), h)
      | _ \<Rightarrow> (Inl AttributeError, h))"

text \<open>\<^verbatim>\<open>execute\<close> over the store: the outcome, the calls, and the store as it leaves it.\<close>

definition create_index_execute_store ::
  "(string \<Rightarrow> error + bool) \<Rightarrow> (stored_index_statement, 'r) connection \<Rightarrow>
   stored_index_statement \<Rightarrow> store \<Rightarrow>
   ((error + 'r result) \<times> stored_index_statement call list) \<times> store" where
  "create_index_execute_store is_ident conn self h =
     (case index_name_of self of
        None \<Rightarrow> ((Inl (ProgrammingError ERR_INVALID_INDEX_NAME [PyNone]), []), h)
      | Some name \<Rightarrow>
     (case check_index_name is_ident name of
        Some e \<Rightarrow> ((Inl e, []), h)
      | None \<Rightarrow>
     if index_desc_at self < length h then
     (case h ! index_desc_at self of
        OList xs \<Rightarrow> ((Inl AttributeError, []), h)
      | ODict d \<Rightarrow>
     if \<not> truthy_in h (fields_desc_val self) then
       ((Inl (ProgrammingError
          ''Required member \"fields\" not found in the given index description: {}''
          [PyDict d]), []), h)
     else
     (case (case fields_desc_val self of
              PyRef l \<Rightarrow> (if l < length h
                          then (case h ! l of OList fs \<Rightarrow> Some fs | ODict fd \<Rightarrow> None)
                          else None)
            | _ \<Rightarrow> None) of
        None \<Rightarrow>
          ((Inl (ProgrammingError ''Required member \"fields\" must contain a list.'' []), []), h)
      | Some fs \<Rightarrow>
          (case pop_type d of
             (index_type, d1) \<Rightarrow>
          (case pop_default ''unique'' (PyBool False) d1 of
             (unique, d2) \<Rightarrow>
          (let h = h[index_desc_at self := ODict d2]
           in if truthy_in h unique then
                ((Inl (NotSupportedError ''Unique indexes are not supported.''), []), h)
              else if d2 \<noteq> [] then
                ((Inl (ProgrammingError ''Unidentified fields: {}'' [PyDict d2]), []), h)
              else
                (case constraints_loop_store index_type fs h [] of
                   (Inl e, h) \<Rightarrow> ((Inl e, []), h)
                 | (Inr constraints, h) \<Rightarrow>
                     (case find (truthy_in h) fs of
                        Some field_desc \<Rightarrow>
                          ((Inl (ProgrammingError ''Unidentified inner fields:{}''
                                   [field_desc]), []), h)
                      | None \<Rightarrow>
                          (let c = Execute_nonquery ''mysqlx'' ''create_collection_index''
                                     True
                                     [(''name'', PyStr name),
                                      (''collection'', PyStr (target_name (target self))),
                                      (''schema'', PyStr (schema_name (target self))),
                                      (''type'', index_type),
                                      (''unique'', unique),
                                      (''constraint'', PyList constraints)]
                           in ((conn c, [c]), h)))))))))
     else ((Inl (OtherError ''no such object''), []), h)))"

text \<open>\<^verbatim>\<open>execute\<close> called \<open>k\<close> times in a row on the statement: the store afterwards.\<close>

fun execute_times ::
  "nat \<Rightarrow> (string \<Rightarrow> error + bool) \<Rightarrow> (stored_index_statement, 'r) connection \<Rightarrow>
   stored_index_statement \<Rightarrow> store \<Rightarrow> store" where
  "execute_times 0 is_ident conn self h = h"
| "execute_times (Suc k) is_ident conn self h =
     execute_times k is_ident conn self (snd (create_index_execute_store is_ident conn self h))"

text \<open>
  What the caller still holds: every object that was in the store before the statement
  was made is the same afterwards.
\<close>

definition unchanged_below :: "nat \<Rightarrow> store \<Rightarrow> store \<Rightarrow> bool" where
  "unchanged_below n h h' = (n \<le> length h' \<and> take n h' = take n h)"

text \<open>
  What the statement owns, from address \<open>n\<close> on: a reference held by an object there, or by
  the statement, points there too.
\<close>

definition fresh_val :: "nat \<Rightarrow> pyval \<Rightarrow> bool" where
  "fresh_val n v = (case v of PyRef a \<Rightarrow> n \<le> a | _ \<Rightarrow> True)"

definition fresh_obj :: "nat \<Rightarrow> obj \<Rightarrow> bool" where
  "fresh_obj n ob =
     (case ob of
        ODict d \<Rightarrow> list_all (\<lambda>kv. fresh_val n (snd kv)) d
      | OList xs \<Rightarrow> list_all (fresh_val n) xs)"

definition fresh_dict :: "nat \<Rightarrow> pydict \<Rightarrow> bool" where
  "fresh_dict n d = list_all (\<lambda>kv. fresh_val n (snd kv)) d"

definition closed_above :: "nat \<Rightarrow> store \<Rightarrow> bool" where
  "closed_above n h = (\<forall>a. n \<le> a \<and> a < length h \<longrightarrow> fresh_obj n (h ! a))"

definition memo_fresh :: "nat \<Rightarrow> (nat \<times> nat) list \<Rightarrow> bool" where
  "memo_fresh n memo = list_all (\<lambda>p. n \<le> snd p) memo"

definition copy_inv :: "nat \<Rightarrow> store \<times> (nat \<times> nat) list \<Rightarrow> bool" where
  "copy_inv n st = (n \<le> length (fst st) \<and> closed_above n (fst st) \<and> memo_fresh n (snd st))"

definition owned :: "nat \<Rightarrow> stored_index_statement \<Rightarrow> store \<Rightarrow> bool" where
  "owned n self h =
     (n \<le> index_desc_at self \<and> fresh_val n (fields_desc_val self) \<and> closed_above n h)"


section \<open>Stand-ins for the collaborators\<close>

text \<open>
  For evaluating the model on concrete inputs: a parser whose tree is the text itself and
  which rejects, with \<^verbatim>\<open>ValueError\<close>, an empty expression and one that ends in an
  operator; a connection that answers every call; a name check that takes lower-case
  letters, digits and underscores for an identifier; the description of a \<^verbatim>\<open>GEOJSON\<close>
  field; and a store that holds a caller's descriptor at address 2, its list of fields at
  address 1 and the one field description at address 0.
\<close>

definition sample_parser :: "string expr_parser" where
  "sample_parser =
     \<lparr>expr = (\<lambda>txt mode. if txt = [] \<or> last txt \<in> set ''<>=+-*/'' then Inl ValueError
                          else Inr (txt, [])),
      parse_expr_list = (\<lambda>txt mode. Inr txt),
      parse_order_spec = (\<lambda>txt mode. Inr txt),
      parse_table_select_projection = (\<lambda>txt mode. Inr txt)\<rparr>"

definition sample_connection :: "('a, nat) connection" where
  "sample_connection c = Inr (Result_of 1)"

definition sample_is_ident :: "string \<Rightarrow> error + bool" where
  "sample_is_ident name =
     (if name = [] then Inl ValueError
      else Inr (list_all (\<lambda>c. c \<in> set ''abcdefghijklmnopqrstuvwxyz_0123456789'') name))"

definition geo_field :: "bool \<Rightarrow> pydict" where
  "geo_field r =
     [(''field'', PyStr ''$.loc''), (''type'', PyStr ''GEOJSON''), (''required'', PyBool r)]"

definition sample_store :: store where
  "sample_store =
     [ODict (geo_field True),
      OList [PyRef 0],
      ODict [(''fields'', PyRef 1), (''type'', PyStr ''SPATIAL'')]]"

definition sample_target :: target where
  "sample_target = \<lparr>target_name = ''t'', schema_name = ''s''\<rparr>"


section \<open>Identifier quoting: results\<close>

subsection \<open>Properties of the string primitives\<close>

lemma find_sep_Some: "find_sep d s = Some (l, r) \<Longrightarrow> s = l @ d @ r"
proof (induction s arbitrary: l)
  case Nil
  then show ?case by simp
next
  case (Cons c cs)
  show ?case
  proof (cases "prefix d (c # cs)")
    case True
    with Cons.prems have lr: "l = []" "r = drop (length d) (c # cs)"
      by auto
    from True have "take (length d) (c # cs) = d"
      by (auto simp: prefix_def)
    then have "c # cs = d @ drop (length d) (c # cs)"
      by (metis append_take_drop_id)
    with lr show ?thesis by simp
  next
    case False
    with Cons.prems obtain l' where "find_sep d cs = Some (l', r)" and "l = c # l'"
      by (auto split: option.splits)
    with Cons.IH show ?thesis by simp
  qed
qed

lemma find_sep_None: "find_sep d s = None \<Longrightarrow> d \<noteq> [] \<Longrightarrow> \<not> contains d s"
  by (induction s) (auto split: if_splits option.splits)


subsection \<open>Quoting\<close>

lemma is_quoted_wrap_backtick:
  "is_quoted_identifier (backtick # xs @ [backtick]) sql_mode = Inr True"
  by (simp add: is_quoted_identifier_def)

lemma is_quoted_wrap_dquote:
  "contains ''ANSI_QUOTES'' sql_mode \<Longrightarrow>
   is_quoted_identifier (dquote # xs @ [dquote]) sql_mode = Inr True"
  by (simp add: is_quoted_identifier_def)

lemma quote_identifier_unquoted:
  "is_quoted_identifier ident sql_mode = Inr False \<Longrightarrow>
   quote_identifier ident sql_mode =
     (if contains ''ANSI_QUOTES'' sql_mode
      then Inr ([dquote] @ replace_char dquote [dquote, dquote] ident @ [dquote])
      else Inr ([backtick] @ replace_char backtick [backtick, backtick] ident @ [backtick]))"
  by (auto simp: quote_identifier_def is_quoted_identifier_def split: if_splits)

text \<open>
  C7. For every SQL mode: quoting the empty identifier gives two backticks; an identifier
  that \<^verbatim>\<open>is_quoted_identifier\<close> accepts is returned unchanged; any other identifier is
  wrapped in the mode's quote character with every embedded quote character doubled; and
  in all cases the result is a quoted identifier, so that quoting it again changes nothing.
\<close>

theorem quote_identifier_contract:
  "quote_identifier [] sql_mode = Inr [backtick, backtick] \<and>
   (is_quoted_identifier ident sql_mode = Inr True \<longrightarrow>
      quote_identifier ident sql_mode = Inr ident) \<and>
   (is_quoted_identifier ident sql_mode = Inr False \<longrightarrow>
      quote_identifier ident sql_mode =
        Inr ([mode_quote sql_mode] @
             concat (map (\<lambda>c. if c = mode_quote sql_mode
                               then [mode_quote sql_mode, mode_quote sql_mode] else [c]) ident) @
             [mode_quote sql_mode])) \<and>
   (\<exists>q. quote_identifier ident sql_mode = Inr q \<and>
        is_quoted_identifier q sql_mode = Inr True \<and>
        quote_identifier q sql_mode = Inr q)"
proof (intro conjI impI)
  show "quote_identifier [] sql_mode = Inr [backtick, backtick]"
    by (simp add: quote_identifier_def)
next
  assume "is_quoted_identifier ident sql_mode = Inr True"
  then show "quote_identifier ident sql_mode = Inr ident"
    by (auto simp: quote_identifier_def is_quoted_identifier_def split: if_splits)
next
  assume "is_quoted_identifier ident sql_mode = Inr False"
  note nq = this
  show "quote_identifier ident sql_mode =
        Inr ([mode_quote sql_mode] @
             concat (map (\<lambda>c. if c = mode_quote sql_mode
                               then [mode_quote sql_mode, mode_quote sql_mode] else [c]) ident) @
             [mode_quote sql_mode])"
  proof (cases "contains ''ANSI_QUOTES'' sql_mode")
    case True
    then have mq: "mode_quote sql_mode = dquote"
      by (simp add: mode_quote_def)
    from nq True show ?thesis
      unfolding mq
      by (auto simp: quote_identifier_def is_quoted_identifier_def replace_char_def
          split: if_splits)
  next
    case False
    then have mq: "mode_quote sql_mode = backtick"
      by (simp add: mode_quote_def)
    from nq False show ?thesis
      unfolding mq
      by (auto simp: quote_identifier_def is_quoted_identifier_def replace_char_def
          split: if_splits)
  qed
next
  have again: "is_quoted_identifier q sql_mode = Inr True \<Longrightarrow> quote_identifier q sql_mode = Inr q"
    for q
    by (auto simp: quote_identifier_def is_quoted_identifier_def split: if_splits)
  have "\<exists>q. quote_identifier ident sql_mode = Inr q \<and> is_quoted_identifier q sql_mode = Inr True"
  proof (cases "ident = []")
    case True
    then show ?thesis
      by (simp add: quote_identifier_def is_quoted_identifier_def)
  next
    case False
    then have "\<exists>b. is_quoted_identifier ident sql_mode = Inr b"
      by (simp add: is_quoted_identifier_def)
    then obtain b where b: "is_quoted_identifier ident sql_mode = Inr b" ..
    show ?thesis
    proof (cases b)
      case True
      with b False show ?thesis by (simp add: quote_identifier_def)
    next
      case nq: False
      with b have "is_quoted_identifier ident sql_mode = Inr False" by simp
      then show ?thesis
        by (cases "contains ''ANSI_QUOTES'' sql_mode")
           (simp_all add: quote_identifier_unquoted is_quoted_wrap_backtick is_quoted_wrap_dquote)
    qed
  qed
  with again show "\<exists>q. quote_identifier ident sql_mode = Inr q \<and>
        is_quoted_identifier q sql_mode = Inr True \<and> quote_identifier q sql_mode = Inr q"
    by blast
qed

theorem quote_identifier_contract_witness:
  "is_quoted_identifier ''`a`'' '''' = Inr True \<and>
   quote_identifier ''`a`'' '''' = Inr ''`a`'' \<and>
   is_quoted_identifier ''a\"b'' ''ANSI_QUOTES'' = Inr False \<and>
   quote_identifier ''a\"b'' ''ANSI_QUOTES'' = Inr ''\"a\"\"b\"''"
proof -
  have q: "is_quoted_identifier ''`a`'' '''' = Inr True"
    by (simp add: is_quoted_identifier_def backtick_def)
  have n: "is_quoted_identifier ''a\"b'' ''ANSI_QUOTES'' = Inr False"
    by (simp add: is_quoted_identifier_def backtick_def dquote_def)
  have m: "mode_quote ''ANSI_QUOTES'' = CHR 0x22"
    by (simp add: mode_quote_def dquote_def)
  from q n quote_identifier_contract [of "''''" "''`a`''"]
    quote_identifier_contract [of "''ANSI_QUOTES''" "''a\"b''"]
  show ?thesis by (simp add: m)
qed


subsection \<open>Table names\<close>

lemma contains_Nil: "contains [] s"
  by (cases s) simp_all

lemma contains_at: "contains d (l @ d @ r)"
proof (induction l)
  case Nil
  show ?case
  proof (cases "d @ r")
    case Nil
    then show ?thesis by (simp add: contains_Nil)
  next
    case (Cons a as)
    have "prefix d (d @ r)" by simp
    with Cons show ?thesis by simp
  qed
next
  case (Cons c l)
  then show ?case by simp
qed

lemma contains_suffix: "contains (c # q) s \<Longrightarrow> contains [c] s"
  by (induction s) (auto simp: prefix_def)

lemma find_sep_iff: "d \<noteq> [] \<Longrightarrow> (find_sep d s = None) = (\<not> contains d s)"
proof
  assume "d \<noteq> []" and "find_sep d s = None"
  then show "\<not> contains d s" by (simp add: find_sep_None)
next
  assume d: "d \<noteq> []" and n: "\<not> contains d s"
  show "find_sep d s = None"
  proof (cases "find_sep d s")
    case None
    then show ?thesis .
  next
    case (Some p)
    obtain l r where "p = (l, r)" by (cases p)
    with Some have "s = l @ d @ r" by (simp add: find_sep_Some)
    with n show ?thesis by (simp add: contains_at)
  qed
qed

text \<open>
  C9. \<^verbatim>\<open>parse_table_name\<close> splits the table reference once. Without a separator the
  default schema is used: \<^verbatim>\<open>parse_table_name("s", "t") = ("s", "t")\<close>. With one, the left
  part is the schema and the right part the table, both stripped of quotes:
  \<^verbatim>\<open>parse_table_name("s", "`db`.`tbl`") = ("db", "tbl")\<close>.
\<close>

theorem parse_table_name_contract:
  "parse_table_name ''s'' ''t'' '''' = (''s'', ''t'') \<and>
   parse_table_name ''s'' ''`db`.`tbl`'' '''' = (''db'', ''tbl'') \<and>
   (\<not> contains ''.'' table_name \<longrightarrow>
      parse_table_name default_schema table_name sql_mode =
        (default_schema, strip [mode_quote sql_mode] table_name)) \<and>
   (contains (''.'' @ [mode_quote sql_mode]) table_name \<longrightarrow>
      (\<exists>l r. table_name = l @ ''.'' @ [mode_quote sql_mode] @ r \<and>
             parse_table_name default_schema table_name sql_mode =
               (strip [mode_quote sql_mode] l, strip [mode_quote sql_mode] r)))"
proof (intro conjI impI)
  show "parse_table_name ''s'' ''t'' '''' = (''s'', ''t'')"
    by (simp add: parse_table_name_def split_once_def strip_def backtick_def)
next
  show "parse_table_name ''s'' ''`db`.`tbl`'' '''' = (''db'', ''tbl'')"
    by (simp add: parse_table_name_def split_once_def strip_def backtick_def)
next
  assume nodot: "\<not> contains ''.'' table_name"
  then have "\<not> contains (''.'' @ [mode_quote sql_mode]) table_name"
    using contains_suffix [of "CHR ''.''" "[mode_quote sql_mode]" table_name] by auto
  then have "find_sep (''.'' @ [mode_quote sql_mode]) table_name = None"
    by (simp add: find_sep_iff)
  moreover from nodot have "find_sep ''.'' table_name = None"
    by (simp add: find_sep_iff)
  ultimately show "parse_table_name default_schema table_name sql_mode =
        (default_schema, strip [mode_quote sql_mode] table_name)"
    by (cases "contains ''ANSI_QUOTES'' sql_mode")
       (simp_all add: parse_table_name_def split_once_def mode_quote_def Let_def)
next
  let ?q = "mode_quote sql_mode"
  assume sep: "contains (''.'' @ [?q]) table_name"
  then have "find_sep (''.'' @ [?q]) table_name \<noteq> None"
    by (simp add: find_sep_iff)
  then obtain l r where lr: "find_sep (''.'' @ [?q]) table_name = Some (l, r)"
    by auto
  then have eq: "table_name = l @ (''.'' @ [?q]) @ r"
    by (rule find_sep_Some)
  then have "table_name = (l @ ''.'') @ [?q] @ r"
    by simp
  then have "contains [?q] table_name"
    using contains_at [of "[?q]" "l @ ''.''" r] by simp
  with lr have "parse_table_name default_schema table_name sql_mode = (strip [?q] l, strip [?q] r)"
    by (cases "contains ''ANSI_QUOTES'' sql_mode")
       (simp_all add: parse_table_name_def split_once_def mode_quote_def Let_def)
  with eq show "\<exists>l r. table_name = l @ ''.'' @ [?q] @ r \<and>
             parse_table_name default_schema table_name sql_mode = (strip [?q] l, strip [?q] r)"
    by auto
qed

theorem parse_table_name_contract_witness:
  "\<not> contains ''.'' ''tbl'' \<and>
   parse_table_name ''s'' ''tbl'' ''ANSI_QUOTES'' = (''s'', ''tbl'') \<and>
   contains (''.'' @ [mode_quote '''']) ''`a`.`b`'' \<and>
   (\<exists>l r. ''`a`.`b`'' = l @ ''.'' @ [mode_quote ''''] @ r \<and>
      parse_table_name ''s'' ''`a`.`b`'' '''' =
        (strip [mode_quote ''''] l, strip [mode_quote ''''] r))"
proof -
  have a: "\<not> contains ''.'' ''tbl''"
    by simp
  have b: "contains (''.'' @ [mode_quote '''']) ''`a`.`b`''"
    by (simp add: mode_quote_def backtick_def)
  have c: "strip [mode_quote ''ANSI_QUOTES''] ''tbl'' = ''tbl''"
    by (simp add: strip_def mode_quote_def dquote_def)
  from a b c parse_table_name_contract [of "''tbl''" "''s''" "''ANSI_QUOTES''"]
    parse_table_name_contract [of "''`a`.`b`''" "''s''" "''''"]
  show ?thesis by simp
qed


section \<open>Statement builders: results\<close>

subsection \<open>The filter flag\<close>

lemma filterable_init_no_condition:
  "has_where (snd (filterable_init P tgt doc None)) = False"
  by (simp add: filterable_init_def)

lemma where_sets_text:
  "has_where (snd (where_stmt P condition self)) \<and>
   where_str (snd (where_stmt P condition self)) = Some condition"
  by (simp add: where_stmt_def Let_def split: sum.splits prod.splits)

lemma limit_has_where: "has_where (snd (limit n k self)) = has_where self"
  by (simp add: limit_def)

lemma sort_has_where: "has_where (snd (sort_stmt P cl self)) = has_where self"
  by (simp add: sort_stmt_def Let_def split: sum.splits)

lemma bind_items_has_where: "has_where (bind_items res self) = has_where self"
proof (induction res arbitrary: self)
  case Nil
  show ?case by simp
next
  case (Cons kv res)
  obtain key val where kv: "kv = (key, val)" by (cases kv)
  show ?case unfolding kv bind_items.simps Cons.IH by simp
qed

lemma bind_single_str_has_where:
  "has_where (snd (bind_single_str L txt self)) = has_where self"
proof (cases "L txt")
  case (Inl e)
  then show ?thesis by (simp add: bind_single_str_def)
next
  case (Inr v)
  then show ?thesis
    by (cases v) (simp_all add: bind_single_str_def bind_items_has_where)
qed

lemma bind_single_has_where:
  "has_where (snd (bind_single L D obj self)) = has_where self"
  by (cases obj) (simp_all add: bind_single_def bind_single_str_has_where)

lemma bind_has_where: "has_where (snd (bind_stmt L D args self)) = has_where self"
  by (simp add: bind_stmt_def index_def Let_def bind_single_has_where)

text \<open>
  C1. On a \<^verbatim>\<open>ModifyStatement\<close>, \<^verbatim>\<open>UpdateStatement\<close>, \<^verbatim>\<open>RemoveStatement\<close> or
  \<^verbatim>\<open>DeleteStatement\<close> whose has-filter flag is unset, \<^verbatim>\<open>execute\<close> fails with the
  "no condition" \<^verbatim>\<open>ProgrammingError\<close> and makes no call on the connection.
\<close>

theorem mandatory_filter:
  "\<not> has_where self \<longrightarrow>
     modify_execute conn self =
       (Inl (ProgrammingError ''No condition was found for modify'' []), []) \<and>
     update_execute conn self =
       (Inl (ProgrammingError ''No condition was found for update'' []), []) \<and>
     remove_execute conn self =
       (Inl (ProgrammingError ''No condition was found for remove'' []), []) \<and>
     delete_execute conn self =
       (Inl (ProgrammingError ''No condition was found for delete'' []), [])"
  by (simp add: modify_execute_def update_execute_def remove_execute_def delete_execute_def)

theorem mandatory_filter_witness:
  "\<not> has_where (snd (filterable_init sample_parser sample_target True None)) \<and>
   remove_execute sample_connection (snd (filterable_init sample_parser sample_target True None)) =
     (Inl (ProgrammingError ''No condition was found for remove'' []), [])"
proof -
  have "\<not> has_where (snd (filterable_init sample_parser sample_target True None))"
    by (simp add: filterable_init_def)
  with mandatory_filter
    [of "snd (filterable_init sample_parser sample_target True None)" sample_connection]
  show ?thesis by simp
qed

subsection \<open>A condition that does not parse\<close>

text \<open>
  C3, as the code has it. When the parser rejects the condition text, \<^verbatim>\<open>where\<close> fails
  with the "Invalid condition" \<^verbatim>\<open>ProgrammingError\<close>; the parsed tree, the placeholder map
  and every other attribute stay as they were, but the has-filter flag and the condition text
  have been set by then. The guard of a later destructive \<^verbatim>\<open>execute\<close> therefore does not
  fire: the statement is handed to the connection.
\<close>

theorem where_invalid_condition:
  "expr P condition (\<not> doc_based self) = Inl ValueError \<longrightarrow>
     (let left = self\<lparr>has_where := True, where_str := Some condition\<rparr>
      in where_stmt P condition self =
           (Some (ProgrammingError ''Invalid condition'' []), left) \<and>
         where_expr left = where_expr self \<and>
         binding_map left = binding_map self \<and>
         modify_execute conn left = (conn (Update left), [Update left]) \<and>
         update_execute conn left = (conn (Update left), [Update left]) \<and>
         remove_execute conn left = (conn (Delete left), [Delete left]) \<and>
         delete_execute conn left = (conn (Delete left), [Delete left]))"
  by (simp add: where_stmt_def modify_execute_def update_execute_def remove_execute_def
      delete_execute_def)

theorem where_invalid_condition_witness:
  "expr sample_parser ''a >''
     (\<not> doc_based (snd (filterable_init sample_parser sample_target True None)))
     = Inl ValueError \<and>
   fst (where_stmt sample_parser ''a >''
          (snd (filterable_init sample_parser sample_target True None))) =
     Some (ProgrammingError ''Invalid condition'' []) \<and>
   fst (remove_execute sample_connection
          (snd (where_stmt sample_parser ''a >''
                  (snd (filterable_init sample_parser sample_target True None))))) =
     Inr (Result_of 1)"
proof -
  have "expr sample_parser ''a >''
          (\<not> doc_based (snd (filterable_init sample_parser sample_target True None)))
        = Inl ValueError"
    by (simp add: sample_parser_def)
  with where_invalid_condition
    [of sample_parser "''a >''" "snd (filterable_init sample_parser sample_target True None)"
        sample_connection]
  show ?thesis by (simp add: Let_def sample_connection_def)
qed

text \<open>
  The claim as written fails: after \<^verbatim>\<open>RemoveStatement(collection).where("a >")\<close> has
  raised, the flag is set and \<^verbatim>\<open>execute\<close> does not raise the "no condition" error.
\<close>

theorem where_failure_keeps_flag_counterexample:
  "expr sample_parser ''a >'' (\<not> doc_based (snd (filterable_init sample_parser sample_target True None)))
     = Inl ValueError \<and>
   has_where (snd (where_stmt sample_parser ''a >''
                     (snd (filterable_init sample_parser sample_target True None)))) \<and>
   fst (remove_execute sample_connection
          (snd (where_stmt sample_parser ''a >''
                  (snd (filterable_init sample_parser sample_target True None))))) \<noteq>
     Inl (ProgrammingError ''No condition was found for remove'' [])"
  by (simp add: sample_parser_def where_stmt_def filterable_init_def remove_execute_def
      sample_connection_def)

subsection \<open>The generated query\<close>








subsection \<open>Locks\<close>

lemma apply_locks_snoc:
  "apply_locks (cs @ [c]) self = apply_lock c (apply_locks cs self)"
  by (simp add: apply_locks_def)

lemma apply_lock_flags:
  "is_lock_shared (apply_lock c self) = (c = Lock_shared) \<and>
   is_lock_exclusive (apply_lock c self) = (c = Lock_exclusive)"
  by (cases c) (simp_all add: lock_shared_def lock_exclusive_def)

lemma read_init_unlocked:
  "\<not> is_lock_shared (snd (read_init P tgt doc cond)) \<and>
   \<not> is_lock_exclusive (snd (read_init P tgt doc cond))"
  by (cases "filterable_init P tgt doc cond")
     (simp add: read_init_def filterable_statement.defs read_statement.defs)

lemma apply_locks_last:
  "is_lock_shared (apply_locks (cs @ [c]) self) = (c = Lock_shared) \<and>
   is_lock_exclusive (apply_locks (cs @ [c]) self) = (c = Lock_exclusive)"
  unfolding apply_locks_snoc by (rule apply_lock_flags)

text \<open>
  C5. After any sequence of \<^verbatim>\<open>lock_shared\<close> and \<^verbatim>\<open>lock_exclusive\<close> calls on a read
  statement the two lock flags are never both set: a fresh statement has neither, and after
  a call exactly the flag of the last call is set. In particular \<^verbatim>\<open>lock_shared\<close> then
  \<^verbatim>\<open>lock_exclusive\<close> leaves only the exclusive flag, and the other order only the shared one.
\<close>

theorem lock_exclusivity:
  "\<not> (is_lock_shared (apply_locks cs (snd (read_init P tgt doc cond))) \<and>
      is_lock_exclusive (apply_locks cs (snd (read_init P tgt doc cond)))) \<and>
   is_lock_shared (apply_locks (cs @ [c]) self) = (c = Lock_shared) \<and>
   is_lock_exclusive (apply_locks (cs @ [c]) self) = (c = Lock_exclusive) \<and>
   is_lock_exclusive (snd (lock_exclusive (snd (lock_shared self)))) \<and>
   \<not> is_lock_shared (snd (lock_exclusive (snd (lock_shared self)))) \<and>
   is_lock_shared (snd (lock_shared (snd (lock_exclusive self)))) \<and>
   \<not> is_lock_exclusive (snd (lock_shared (snd (lock_exclusive self))))"
proof -
  have "\<not> (is_lock_shared (apply_locks cs (snd (read_init P tgt doc cond))) \<and>
      is_lock_exclusive (apply_locks cs (snd (read_init P tgt doc cond))))"
  proof (cases cs rule: rev_cases)
    case Nil
    then show ?thesis
      using read_init_unlocked [of P tgt doc cond] by (simp add: apply_locks_def)
  next
    case (snoc ds d)
    then show ?thesis
      using apply_locks_last [of ds d "snd (read_init P tgt doc cond)"] by (cases d) simp_all
  qed
  moreover have "is_lock_exclusive (snd (lock_exclusive (snd (lock_shared self)))) \<and>
   \<not> is_lock_shared (snd (lock_exclusive (snd (lock_shared self)))) \<and>
   is_lock_shared (snd (lock_shared (snd (lock_exclusive self)))) \<and>
   \<not> is_lock_exclusive (snd (lock_shared (snd (lock_exclusive self))))"
    by (simp add: lock_shared_def lock_exclusive_def)
  ultimately show ?thesis using apply_locks_last [of cs c self] by blast
qed

theorem lock_exclusivity_witness:
  "is_lock_exclusive
     (apply_locks ([Lock_exclusive, Lock_shared] @ [Lock_exclusive])
        (snd (read_init sample_parser sample_target True None))) \<and>
   \<not> is_lock_shared
     (apply_locks ([Lock_exclusive, Lock_shared] @ [Lock_exclusive])
        (snd (read_init sample_parser sample_target True None)))"
  using lock_exclusivity [where cs = "[Lock_exclusive, Lock_shared]" and c = Lock_exclusive
      and self = "snd (read_init sample_parser sample_target True None)"
      and P = sample_parser and tgt = sample_target and doc = True and cond = None]
  by simp

subsection \<open>Binding\<close>

text \<open>
  C6, at the input where the code departs from it. \<^verbatim>\<open>bind()\<close> with no argument is not
  rejected by the arity check (\<^verbatim>\<open>count > 2\<close>): it reaches \<^verbatim>\<open>args[0]\<close> and raises
  \<^verbatim>\<open>IndexError\<close>, not the \<^verbatim>\<open>ProgrammingError\<close> that the docstring of \<^verbatim>\<open>bind\<close> promises
  for an invalid number of arguments.
\<close>

theorem bind_without_arguments:
  "bind_stmt json_loads doc_str [] self = (Some IndexError, self\<lparr>has_bindings := True\<rparr>)"
  by (simp add: bind_stmt_def index_def)

text \<open>
  The other call shapes behave as documented: two arguments register one binding; one
  document or JSON text registers one binding for each entry of the decoded dictionary; a
  text that does not decode to a dictionary is an invalid JSON string; three or more
  arguments are an invalid number of arguments.
\<close>

lemma bind_items_bindings:
  "bind_items res self =
     (if res = [] then self
      else self\<lparr>has_bindings := True,
                bindings := bindings self @ map (\<lambda>(key, val). (PyStr key, val)) res\<rparr>)"
proof (induction res arbitrary: self)
  case Nil
  show ?case by simp
next
  case (Cons kv res)
  obtain key val where kv: "kv = (key, val)" by (cases kv)
  show ?case unfolding kv bind_items.simps Cons.IH by simp
qed

lemma bind_arities:
  "bind_stmt json_loads doc_str [name, val] self =
     (None, self\<lparr>has_bindings := True, bindings := bindings self @ [(name, val)]\<rparr>) \<and>
   (json_loads txt = Inr (PyDict res) \<longrightarrow>
      bind_stmt json_loads doc_str [PyStr txt] self =
        (None, self\<lparr>has_bindings := True,
                    bindings := bindings self @ map (\<lambda>(key, val). (PyStr key, val)) res\<rparr>)) \<and>
   (json_loads (doc_str d) = Inr (PyDict res) \<longrightarrow>
      bind_stmt json_loads doc_str [PyDoc d] self =
        (None, self\<lparr>has_bindings := True,
                    bindings := bindings self @ map (\<lambda>(key, val). (PyStr key, val)) res\<rparr>)) \<and>
   (json_loads txt = Inl ValueError \<or>
    (\<exists>v. json_loads txt = Inr v \<and> (\<forall>res. v \<noteq> PyDict res)) \<longrightarrow>
      bind_stmt json_loads doc_str [PyStr txt] self =
        (Some (ProgrammingError ''Invalid JSON string to bind'' []),
         self\<lparr>has_bindings := True\<rparr>)) \<and>
   (length args > 2 \<longrightarrow>
      bind_stmt json_loads doc_str args self =
        (Some (ProgrammingError ''Invalid number of arguments to bind'' []),
         self\<lparr>has_bindings := True\<rparr>))"
proof (intro conjI impI)
  show "bind_stmt json_loads doc_str [name, val] self =
     (None, self\<lparr>has_bindings := True, bindings := bindings self @ [(name, val)]\<rparr>)"
    by (simp add: bind_stmt_def index_def)
next
  assume "json_loads txt = Inr (PyDict res)"
  then show "bind_stmt json_loads doc_str [PyStr txt] self =
        (None, self\<lparr>has_bindings := True,
                    bindings := bindings self @ map (\<lambda>(key, val). (PyStr key, val)) res\<rparr>)"
    by (cases "res = []")
       (simp_all add: bind_stmt_def index_def bind_single_def bind_single_str_def
          bind_items_bindings Let_def)
next
  assume "json_loads (doc_str d) = Inr (PyDict res)"
  then show "bind_stmt json_loads doc_str [PyDoc d] self =
        (None, self\<lparr>has_bindings := True,
                    bindings := bindings self @ map (\<lambda>(key, val). (PyStr key, val)) res\<rparr>)"
    by (cases "res = []")
       (simp_all add: bind_stmt_def index_def bind_single_def bind_single_str_def
          bind_items_bindings Let_def)
next
  assume "json_loads txt = Inl ValueError \<or>
    (\<exists>v. json_loads txt = Inr v \<and> (\<forall>res. v \<noteq> PyDict res))"
  then show "bind_stmt json_loads doc_str [PyStr txt] self =
        (Some (ProgrammingError ''Invalid JSON string to bind'' []),
         self\<lparr>has_bindings := True\<rparr>)"
  proof
    assume "json_loads txt = Inl ValueError"
    then show ?thesis
      by (simp add: bind_stmt_def index_def bind_single_def bind_single_str_def)
  next
    assume "\<exists>v. json_loads txt = Inr v \<and> (\<forall>res. v \<noteq> PyDict res)"
    then obtain v where v: "json_loads txt = Inr v" "\<forall>res. v \<noteq> PyDict res" by blast
    then show ?thesis
      by (cases v) (simp_all add: bind_stmt_def index_def bind_single_def bind_single_str_def)
  qed
next
  assume "length args > 2"
  then show "bind_stmt json_loads doc_str args self =
        (Some (ProgrammingError ''Invalid number of arguments to bind'' []),
         self\<lparr>has_bindings := True\<rparr>)"
    by (simp add: bind_stmt_def)
qed

subsection \<open>Adding documents\<close>

text \<open>
  C8. \<^verbatim>\<open>execute\<close> of an \<^verbatim>\<open>AddStatement\<close> that holds no document, a fresh one among them,
  returns the empty \<^verbatim>\<open>Result\<close> and makes no call on the connection; with at least one
  document it makes the single call \<^verbatim>\<open>send_insert\<close> and returns its outcome.
\<close>

theorem add_execute_contract:
  "add_execute conn (add_init collection) = (Inr Result_empty, []) \<and>
   (stmt_values self = [] \<longrightarrow> add_execute conn' self = (Inr Result_empty, [])) \<and>
   (stmt_values self \<noteq> [] \<longrightarrow>
      add_execute conn' self = (conn' (Send_insert self), [Send_insert self]))"
  by (simp add: add_execute_def add_init_def)

theorem add_execute_contract_witness:
  "stmt_values (add_init sample_target) = [] \<and>
   add_execute sample_connection (add_init sample_target) = (Inr Result_empty, []) \<and>
   stmt_values (snd (add (\<lambda>v. Inr v) [PyDoc [(''a'', PyInt 1)]] (add_init sample_target))) \<noteq> [] \<and>
   fst (add_execute sample_connection
          (snd (add (\<lambda>v. Inr v) [PyDoc [(''a'', PyInt 1)]] (add_init sample_target)))) =
     Inr (Result_of 1)"
proof -
  have a: "stmt_values (add_init sample_target) = []"
    by (simp add: add_init_def)
  have b: "stmt_values (snd (add (\<lambda>v. Inr v) [PyDoc [(''a'', PyInt 1)]] (add_init sample_target)))
           \<noteq> []"
    by (simp add: add_def add_init_def)
  from a b add_execute_contract [of sample_connection sample_target "add_init sample_target"
      sample_connection]
    add_execute_contract [of sample_connection sample_target
      "snd (add (\<lambda>v. Inr v) [PyDoc [(''a'', PyInt 1)]] (add_init sample_target))"
      sample_connection]
  show ?thesis by (simp add: sample_connection_def)
qed

section \<open>Index creation: results\<close>

subsection \<open>Dictionaries and the loop over the fields\<close>







lemma rejectedI: "rejected (Inl e, [])"
  by (simp add: rejected_def)






































subsection \<open>The validation matrix\<close>




section \<open>The store: results\<close>

subsection \<open>The deep copy writes only to what it allocates\<close>

lemma fresh_val_not_ref: "ref_of v = None \<Longrightarrow> fresh_val n v"
  by (cases v) (simp_all add: ref_of_def fresh_val_def)

lemma ref_of_Some: "ref_of v = Some a \<Longrightarrow> v = PyRef a"
  by (cases v) (simp_all add: ref_of_def)

lemma memo_fresh_lookup: "memo_fresh n memo \<Longrightarrow> map_of memo a = Some y \<Longrightarrow> n \<le> y"
proof -
  assume m: "memo_fresh n memo" and "map_of memo a = Some y"
  then have "(a, y) \<in> set memo" by (simp add: map_of_SomeD)
  with m show ?thesis by (auto simp: memo_fresh_def list_all_iff)
qed

lemma closed_above_alloc:
  "closed_above n h \<Longrightarrow> fresh_obj n ob \<Longrightarrow> closed_above n (h @ [ob])"
  by (auto simp: closed_above_def nth_append)

lemma closed_above_update:
  assumes "closed_above n h" and "fresh_obj n ob"
  shows "closed_above n (h[y := ob])"
  unfolding closed_above_def
proof (intro allI impI)
  fix a
  assume a: "n \<le> a \<and> a < length (h[y := ob])"
  show "fresh_obj n (h[y := ob] ! a)"
  proof (cases "a = y")
    case True
    with a assms(2) show ?thesis by simp
  next
    case False
    with a assms(1) show ?thesis by (simp add: closed_above_def)
  qed
qed

lemma fresh_obj_empty: "fresh_obj n (OList [])" "fresh_obj n (ODict [])"
  by (simp_all add: fresh_obj_def)

lemma list_append_frame:
  assumes "closed_above n h" and "n \<le> y" and "y < length h" and "fresh_val n v"
  shows "closed_above n (list_append y v h) \<and> length (list_append y v h) = length h \<and>
         take n (list_append y v h) = take n h"
proof (cases "h ! y")
  case (ODict d)
  with assms show ?thesis by (simp add: list_append_def)
next
  case (OList xs)
  from assms(1-3) have "fresh_obj n (h ! y)" by (simp add: closed_above_def)
  with OList assms(4) have "fresh_obj n (OList (xs @ [v]))"
    by (simp add: fresh_obj_def)
  with assms OList show ?thesis
    by (simp add: list_append_def closed_above_update)
qed

lemma set_item_frame:
  assumes "closed_above n h" and "n \<le> y" and "y < length h" and "fresh_val n v"
  shows "closed_above n (set_item y key v h) \<and> length (set_item y key v h) = length h \<and>
         take n (set_item y key v h) = take n h"
proof (cases "h ! y")
  case (OList xs)
  with assms show ?thesis by (simp add: set_item_def)
next
  case (ODict d)
  from assms(1-3) have "fresh_obj n (h ! y)" by (simp add: closed_above_def)
  with ODict assms(4) have
    "fresh_obj n (ODict (if has_key key d
                        then map (\<lambda>kv. if fst kv = key then (key, v) else kv) d
                        else d @ [(key, v)]))"
    by (auto simp: fresh_obj_def list_all_iff)
  with assms ODict show ?thesis
    by (simp add: set_item_def closed_above_update)
qed

lemma deepcopy_frame:
  "copy_inv n0 st \<Longrightarrow> deepcopy n v st = (r, st') \<Longrightarrow>
     copy_inv n0 st' \<and> take n0 (fst st') = take n0 (fst st) \<and>
     length (fst st) \<le> length (fst st') \<and> (\<forall>v'. r = Inr v' \<longrightarrow> fresh_val n0 v')"
  "copy_inv n0 st \<Longrightarrow> n0 \<le> y \<Longrightarrow> y < length (fst st) \<Longrightarrow> copy_items n xs y st = (r2, st2) \<Longrightarrow>
     copy_inv n0 st2 \<and> take n0 (fst st2) = take n0 (fst st) \<and>
     length (fst st) \<le> length (fst st2)"
  "copy_inv n0 st \<Longrightarrow> n0 \<le> y \<Longrightarrow> y < length (fst st) \<Longrightarrow> copy_entries n d y st = (r3, st3) \<Longrightarrow>
     copy_inv n0 st3 \<and> take n0 (fst st3) = take n0 (fst st) \<and>
     length (fst st) \<le> length (fst st3)"
proof (induction n v st and n xs y st and n d y st
    arbitrary: r st' and r2 st2 and r3 st3
    rule: deepcopy_copy_items_copy_entries.induct)
  case (1 n v st)
  note inv = "1.prems"(1)
  note run = "1.prems"(2) [unfolded deepcopy.simps [of n v st]]
  show ?case
  proof (cases "ref_of v")
    case None
    with run have "r = Inr v" "st' = st"
      by simp_all
    with inv None show ?thesis by (simp add: fresh_val_not_ref)
  next
    case (Some a)
    show ?thesis
    proof (cases "map_of (snd st) a")
      case found: (Some y)
      with Some run have "r = Inr (PyRef y)" "st' = st"
        by simp_all
      moreover from inv found have "n0 \<le> y"
        by (auto simp: copy_inv_def dest: memo_fresh_lookup)
      ultimately show ?thesis using inv by (simp add: fresh_val_def)
    next
      case None
      show ?thesis
      proof (cases n)
        case 0
        with Some None run have "st' = st" "r = Inl RecursionError"
          by simp_all
        with inv show ?thesis by simp
      next
        case (Suc m)
        show ?thesis
        proof (cases "a < length (fst st)")
          case False
          with Some None Suc run have "st' = st" "r = Inl (OtherError ''no such object'')"
            by simp_all
          with inv show ?thesis by simp
        next
          case True
          let ?y = "length (fst st)"
          have fresh_y: "fresh_val n0 (PyRef ?y)"
            using inv by (simp add: fresh_val_def copy_inv_def)
          show ?thesis
          proof (cases "fst st ! a")
            case (OList xs)
            let ?st1 = "(fst st @ [OList []], (a, ?y) # snd st)"
            have inv1: "copy_inv n0 ?st1"
              using inv by (simp add: copy_inv_def closed_above_alloc fresh_obj_empty memo_fresh_def)
            obtain r1 st1' where c: "copy_items m xs ?y ?st1 = (r1, st1')"
              by (cases "copy_items m xs ?y ?st1")
            have y: "n0 \<le> ?y" "?y < length (fst ?st1)"
              using inv by (simp_all add: copy_inv_def)
            from "1.IH"(2) [OF Some None Suc True OList inv1 y c]
            have res: "copy_inv n0 st1'" "take n0 (fst st1') = take n0 (fst ?st1)"
              "length (fst ?st1) \<le> length (fst st1')"
              by simp_all
            from Some None Suc True OList c run
            have "st' = st1'" and r: "r = (case r1 of Some e \<Rightarrow> Inl e | None \<Rightarrow> Inr (PyRef ?y))"
              by (simp_all split: option.splits)
            with res inv fresh_y show ?thesis
              by (auto simp: copy_inv_def split: option.splits)
          next
            case (ODict d)
            let ?st1 = "(fst st @ [ODict []], (a, ?y) # snd st)"
            have inv1: "copy_inv n0 ?st1"
              using inv by (simp add: copy_inv_def closed_above_alloc fresh_obj_empty memo_fresh_def)
            obtain r1 st1' where c: "copy_entries m d ?y ?st1 = (r1, st1')"
              by (cases "copy_entries m d ?y ?st1")
            have y: "n0 \<le> ?y" "?y < length (fst ?st1)"
              using inv by (simp_all add: copy_inv_def)
            from "1.IH"(1) [OF Some None Suc True ODict inv1 y c]
            have res: "copy_inv n0 st1'" "take n0 (fst st1') = take n0 (fst ?st1)"
              "length (fst ?st1) \<le> length (fst st1')"
              by simp_all
            from Some None Suc True ODict c run
            have "st' = st1'" and r: "r = (case r1 of Some e \<Rightarrow> Inl e | None \<Rightarrow> Inr (PyRef ?y))"
              by (simp_all split: option.splits)
            with res inv fresh_y show ?thesis
              by (auto simp: copy_inv_def split: option.splits)
          qed
        qed
      qed
    qed
  qed
next
  case (2 n y st)
  then show ?case by simp
next
  case (3 n x xs y st)
  note inv = "3.prems"(1) and y = "3.prems"(2,3) and run = "3.prems"(4)
  obtain rx st1 where dx: "deepcopy n x st = (rx, st1)"
    by (cases "deepcopy n x st")
  from "3.IH"(1) [OF inv dx]
  have res1: "copy_inv n0 st1" "take n0 (fst st1) = take n0 (fst st)"
    "length (fst st) \<le> length (fst st1)" "\<forall>v'. rx = Inr v' \<longrightarrow> fresh_val n0 v'"
    by simp_all
  show ?case
  proof (cases rx)
    case (Inl e)
    with dx run have "st2 = st1" by simp
    with res1 show ?thesis by simp
  next
    case (Inr v)
    let ?st = "(list_append y v (fst st1), snd st1)"
    from res1 Inr have fv: "fresh_val n0 v" by simp
    from res1 y have y1: "y < length (fst st1)" by simp
    from res1(1) have ca: "closed_above n0 (fst st1)" by (simp add: copy_inv_def)
    note la = list_append_frame [OF ca y(1) y1 fv]
    with res1(1) have inv2: "copy_inv n0 ?st" by (simp add: copy_inv_def)
    from la y1 have y2: "y < length (fst ?st)" by simp
    from dx Inr run have c: "copy_items n xs y ?st = (r2, st2)" by simp
    from "3.IH"(2) [OF dx [symmetric] Inr inv2 y(1) y2 c] la res1
    show ?thesis by simp
  qed
next
  case (4 n y st)
  then show ?case by simp
next
  case (5 n kx d y st)
  note inv = "5.prems"(1) and y = "5.prems"(2,3) and run = "5.prems"(4)
  obtain rx st1 where dx: "deepcopy n (snd kx) st = (rx, st1)"
    by (cases "deepcopy n (snd kx) st")
  from "5.IH"(1) [OF inv dx]
  have res1: "copy_inv n0 st1" "take n0 (fst st1) = take n0 (fst st)"
    "length (fst st) \<le> length (fst st1)" "\<forall>v'. rx = Inr v' \<longrightarrow> fresh_val n0 v'"
    by simp_all
  show ?case
  proof (cases rx)
    case (Inl e)
    with dx run have "st3 = st1" by simp
    with res1 show ?thesis by simp
  next
    case (Inr v)
    let ?st = "(set_item y (fst kx) v (fst st1), snd st1)"
    from res1 Inr have fv: "fresh_val n0 v" by simp
    from res1 y have y1: "y < length (fst st1)" by simp
    from res1(1) have ca: "closed_above n0 (fst st1)" by (simp add: copy_inv_def)
    note la = set_item_frame [OF ca y(1) y1 fv, of "fst kx"]
    with res1(1) have inv2: "copy_inv n0 ?st" by (simp add: copy_inv_def)
    from la y1 have y2: "y < length (fst ?st)" by simp
    from dx Inr run have c: "copy_entries n d y ?st = (r3, st3)" by simp
    from "5.IH"(2) [OF dx [symmetric] Inr inv2 y(1) y2 c] la res1
    show ?thesis by simp
  qed
qed

subsection \<open>A pop leaves a part of the dictionary\<close>

lemma fresh_obj_ODict: "fresh_obj n (ODict d) = fresh_dict n d"
  by (simp add: fresh_obj_def fresh_dict_def)

lemma fresh_dict_subset: "fresh_dict n d \<Longrightarrow> set d' \<subseteq> set d \<Longrightarrow> fresh_dict n d'"
  by (auto simp: fresh_dict_def list_all_iff)

lemma set_del_key: "set (del_key k d) \<subseteq> set d"
  by (auto simp: del_key_def)

lemma fresh_dict_lookup: "fresh_dict n d \<Longrightarrow> map_of d k = Some v \<Longrightarrow> fresh_val n v"
proof -
  assume f: "fresh_dict n d" and "map_of d k = Some v"
  then have "(k, v) \<in> set d" by (simp add: map_of_SomeD)
  with f show ?thesis by (auto simp: fresh_dict_def list_all_iff)
qed

lemma set_pop: "pop k d = Some (v, rest) \<Longrightarrow> set rest \<subseteq> set d"
  by (auto simp: pop_def del_key_def split: option.splits)

lemma set_pop_default: "set (snd (pop_default k dflt d)) \<subseteq> set d"
  by (auto simp: pop_default_def pop_def del_key_def split: option.splits)

lemma set_pop_type: "set (snd (pop_type d)) \<subseteq> set d"
  by (auto simp: pop_type_def pop_def del_key_def split: option.splits)

lemma set_optional_member: "set (snd (optional_member key legal msg ctype c fd)) \<subseteq> set fd"
  by (auto simp: optional_member_def pop_def del_key_def split: option.splits sum.splits)

lemma set_field_step: "set (snd (field_step truth ty fd)) \<subseteq> set fd"
proof (cases "pop ''field'' fd")
  case None
  then show ?thesis by (simp add: field_step_def)
next
  case (Some p1)
  obtain member fd1 where p1: "p1 = (member, fd1)" by (cases p1)
  with Some have s1: "set fd1 \<subseteq> set fd" by (simp add: set_pop)
  show ?thesis
  proof (cases "pop ''type'' fd1")
    case None
    with Some p1 s1 show ?thesis by (simp add: field_step_def)
  next
    case t: (Some p2)
    obtain ctype fd2 where p2: "p2 = (ctype, fd2)" by (cases p2)
    with t have s2: "set fd2 \<subseteq> set fd1" by (simp add: set_pop)
    obtain required fd3 where p3: "pop_default ''required'' (PyBool False) fd2 = (required, fd3)"
      by (cases "pop_default ''required'' (PyBool False) fd2")
    with set_pop_default [of "''required''" "PyBool False" fd2] have s3: "set fd3 \<subseteq> set fd2"
      by simp
    from s1 s2 s3 have s: "set fd3 \<subseteq> set fd" by blast
    let ?c = "[(''member'', member), (''type'', ctype), (''required'', required)]"
    have "set (snd (field_step truth ty fd)) \<subseteq> set fd3"
    proof (cases "str_upper ty")
      case (Inl e)
      with Some p1 t p2 p3 show ?thesis by (simp add: field_step_def)
    next
      case (Inr T)
      let ?m1 = "optional_member ''collation'' (prefix ''TEXT'')
          ''The \"collation\" member can only be used when field  type is set to \"GEOJSON\"''
          ctype ?c fd3"
      obtain r4 fd4 where m1: "?m1 = (r4, fd4)" by (cases ?m1)
      with set_optional_member [of "''collation''" "prefix ''TEXT''" _ ctype ?c fd3]
      have s4: "set fd4 \<subseteq> set fd3" by (metis snd_conv)
      show ?thesis
      proof (cases r4)
        case e4: (Inl e)
        with Some p1 t p2 p3 Inr m1 s4 show ?thesis by (simp add: field_step_def)
      next
        case c4: (Inr c4)
        let ?m2 = "optional_member ''options'' (\<lambda>T. T = ''GEOJSON'')
            ''The \"options\" member can only be used when index type is set to \"GEOJSON\"''
            ctype c4 fd4"
        obtain r5 fd5 where m2: "?m2 = (r5, fd5)" by (cases ?m2)
        with set_optional_member [of "''options''" "\<lambda>T. T = ''GEOJSON''" _ ctype c4 fd4]
        have s5: "set fd5 \<subseteq> set fd4" by (metis snd_conv)
        show ?thesis
        proof (cases r5)
          case e5: (Inl e)
          with Some p1 t p2 p3 Inr m1 c4 m2 s4 s5 show ?thesis
            by (auto simp: field_step_def)
        next
          case c5: (Inr c5)
          have "set (snd (optional_member ''srid'' (\<lambda>T. T = ''GEOJSON'')
              ''The \"srid\" member can only be used when index type is set to \"GEOJSON\"''
              ctype c5 fd5)) \<subseteq> set fd5"
            by (rule set_optional_member)
          with Some p1 t p2 p3 Inr m1 c4 m2 c5 s4 s5 show ?thesis
            by (auto simp: field_step_def)
        qed
      qed
    qed
    with s show ?thesis by blast
  qed
qed

subsection \<open>The statement writes only to its copy\<close>

lemma closed_aboveD: "closed_above n h \<Longrightarrow> n \<le> a \<Longrightarrow> a < length h \<Longrightarrow> fresh_obj n (h ! a)"
  by (simp add: closed_above_def)

lemma constraints_loop_store_frame:
  "closed_above n h \<Longrightarrow> list_all (fresh_val n) fs \<Longrightarrow>
   closed_above n (snd (constraints_loop_store ty fs h acc)) \<and>
   length (snd (constraints_loop_store ty fs h acc)) = length h \<and>
   take n (snd (constraints_loop_store ty fs h acc)) = take n h"
proof (induction fs arbitrary: h acc)
  case Nil
  then show ?case by simp
next
  case (Cons f fs)
  then have ca: "closed_above n h" and ff: "fresh_val n f" and rest: "list_all (fresh_val n) fs"
    by simp_all
  show ?case
  proof (cases f)
    case (PyRef a)
    with ff have na: "n \<le> a" by (simp add: fresh_val_def)
    show ?thesis
    proof (cases "a < length h")
      case False
      with PyRef ca show ?thesis by simp
    next
      case True
      show ?thesis
      proof (cases "h ! a")
        case (OList xs)
        with PyRef True ca show ?thesis by simp
      next
        case (ODict fd)
        obtain r fd' where step: "field_step (truthy_in h) ty fd = (r, fd')"
          by (cases "field_step (truthy_in h) ty fd")
        from ca na True ODict have "fresh_dict n fd"
          using closed_aboveD fresh_obj_ODict by metis
        moreover from step set_field_step [of "truthy_in h" ty fd] have "set fd' \<subseteq> set fd"
          by simp
        ultimately have "fresh_obj n (ODict fd')"
          by (simp add: fresh_obj_ODict fresh_dict_subset)
        with ca have ca': "closed_above n (h[a := ODict fd'])"
          by (rule closed_above_update)
        have tk: "take n (h[a := ODict fd']) = take n h"
          using na by simp
        show ?thesis
        proof (cases r)
          case (Inl e)
          with PyRef True ODict step ca' tk show ?thesis by simp
        next
          case (Inr c)
          from Cons.IH [OF ca' rest, of "acc @ [PyDict c]"] PyRef True ODict step Inr tk
          show ?thesis by simp
        qed
      qed
    qed
  qed (use ca in simp_all)
qed

lemma owned_update:
  "owned n self h \<Longrightarrow> closed_above n h' \<Longrightarrow> owned n self h'"
  by (simp add: owned_def)

lemma create_index_execute_store_frame:
  assumes "owned n self h"
  shows "owned n self (snd (create_index_execute_store is_ident conn self h)) \<and>
         length (snd (create_index_execute_store is_ident conn self h)) = length h \<and>
         take n (snd (create_index_execute_store is_ident conn self h)) = take n h"
proof -
  let ?c = "index_desc_at self"
  from assms have nc: "n \<le> ?c" and fv: "fresh_val n (fields_desc_val self)"
    and ca: "closed_above n h"
    by (simp_all add: owned_def)
  have same: "snd (create_index_execute_store is_ident conn self h) = h \<Longrightarrow> ?thesis"
    using assms by simp
  show ?thesis
  proof (cases "index_name_of self")
    case None
    then show ?thesis by (intro same) (simp add: create_index_execute_store_def)
  next
    case (Some name)
    show ?thesis
    proof (cases "check_index_name is_ident name")
      case bad: (Some e)
      with Some show ?thesis by (intro same) (simp add: create_index_execute_store_def)
    next
      case None
      show ?thesis
      proof (cases "?c < length h")
        case False
        with Some None show ?thesis
          by (intro same) (simp add: create_index_execute_store_def)
      next
        case lt: True
        show ?thesis
        proof (cases "h ! ?c")
          case (OList xs)
          with Some None lt show ?thesis
            by (intro same) (simp add: create_index_execute_store_def)
        next
          case (ODict d)
          show ?thesis
          proof (cases "truthy_in h (fields_desc_val self)")
            case False
            with Some None lt ODict show ?thesis
              by (intro same) (simp add: create_index_execute_store_def)
          next
            case tr: True
            let ?fs = "(case fields_desc_val self of
                PyRef l \<Rightarrow> (if l < length h
                            then (case h ! l of OList fs \<Rightarrow> Some fs | ODict fd \<Rightarrow> None)
                            else None)
              | _ \<Rightarrow> None)"
            show ?thesis
            proof (cases ?fs)
              case nolist: None
              with Some None lt ODict tr show ?thesis
                by (intro same) (simp add: create_index_execute_store_def)
            next
              case list: (Some fs)
              then obtain l where l: "fields_desc_val self = PyRef l" "l < length h"
                "h ! l = OList fs"
                by (auto split: pyval.splits if_splits obj.splits)
              with fv have "n \<le> l" by (simp add: fresh_val_def)
              with ca l have fresh_fs: "list_all (fresh_val n) fs"
                using closed_aboveD [of n h l] by (simp add: fresh_obj_def)
              obtain index_type d1 where pt: "pop_type d = (index_type, d1)"
                by (cases "pop_type d")
              obtain unique d2 where pu: "pop_default ''unique'' (PyBool False) d1 = (unique, d2)"
                by (cases "pop_default ''unique'' (PyBool False) d1")
              from pt set_pop_type [of d] have "set d1 \<subseteq> set d" by simp
              moreover from pu set_pop_default [of "''unique''" "PyBool False" d1]
              have "set d2 \<subseteq> set d1" by simp
              ultimately have sub: "set d2 \<subseteq> set d" by blast
              from ca nc lt ODict have "fresh_dict n d"
                using closed_aboveD fresh_obj_ODict by metis
              with sub have "fresh_obj n (ODict d2)"
                by (simp add: fresh_obj_ODict fresh_dict_subset)
              with ca have ca1: "closed_above n (h[?c := ODict d2])"
                by (rule closed_above_update)
              let ?h1 = "h[?c := ODict d2]"
              have tk1: "take n ?h1 = take n h" using nc by simp
              note loop = constraints_loop_store_frame [OF ca1 fresh_fs, of index_type "[]"]
              obtain r h2 where run: "constraints_loop_store index_type fs ?h1 [] = (r, h2)"
                by (cases "constraints_loop_store index_type fs ?h1 []")
              with loop have h2: "closed_above n h2" "length h2 = length h" "take n h2 = take n h"
                using tk1 by simp_all
              have "snd (create_index_execute_store is_ident conn self h) = ?h1 \<or>
                    snd (create_index_execute_store is_ident conn self h) = h2"
              proof (cases "d2 = []")
                case False
                with Some None lt ODict tr list pt pu show ?thesis
                  by (simp add: create_index_execute_store_def Let_def)
              next
                case True
                with Some None lt ODict tr list pt pu run show ?thesis
                  by (simp add: create_index_execute_store_def Let_def
                      split: sum.splits option.splits)
              qed
              then show ?thesis
              proof
                assume "snd (create_index_execute_store is_ident conn self h) = ?h1"
                with ca1 tk1 assms show ?thesis by (simp add: owned_def)
              next
                assume "snd (create_index_execute_store is_ident conn self h) = h2"
                with h2 assms show ?thesis by (simp add: owned_def)
              qed
            qed
          qed
        qed
      qed
    qed
  qed
qed

lemma execute_times_frame:
  "owned n self h \<Longrightarrow>
   owned n self (execute_times k is_ident conn self h) \<and>
   length (execute_times k is_ident conn self h) = length h \<and>
   take n (execute_times k is_ident conn self h) = take n h"
proof (induction k arbitrary: h)
  case 0
  then show ?case by simp
next
  case (Suc k)
  note step = create_index_execute_store_frame [OF Suc.prems, of is_ident conn]
  from step have "owned n self (snd (create_index_execute_store is_ident conn self h))"
    by simp
  from Suc.IH [OF this] step show ?case by simp
qed

lemma closed_above_start: "closed_above (length h) h"
  by (auto simp: closed_above_def)

lemma create_index_init_store_frame:
  "length h \<le> length (snd (create_index_init_store depth collection name desc h)) \<and>
   take (length h) (snd (create_index_init_store depth collection name desc h)) = h \<and>
   (case fst (create_index_init_store depth collection name desc h) of
      Inl e \<Rightarrow> True
    | Inr self \<Rightarrow>
        owned (length h) self (snd (create_index_init_store depth collection name desc h)))"
proof -
  let ?n = "length h"
  obtain r hc memo where dc: "deepcopy depth desc (h, []) = (r, (hc, memo))"
    by (cases "deepcopy depth desc (h, [])") auto
  have "copy_inv ?n (h, [])"
    by (simp add: copy_inv_def closed_above_start memo_fresh_def)
  from deepcopy_frame(1) [OF this dc]
  have inv: "copy_inv ?n (hc, memo)" and tk: "take ?n hc = h" and len: "?n \<le> length hc"
    and fr: "\<forall>v'. r = Inr v' \<longrightarrow> fresh_val ?n v'"
    by simp_all
  from inv have ca: "closed_above ?n hc" by (simp add: copy_inv_def)
  show ?thesis
  proof (cases r)
    case (Inl e)
    with dc tk len show ?thesis by (simp add: create_index_init_store_def)
  next
    case (Inr v)
    show ?thesis
    proof (cases v)
      case (PyRef c)
      with Inr fr have nc: "?n \<le> c" by (simp add: fresh_val_def)
      show ?thesis
      proof (cases "c < length hc")
        case False
        with dc Inr PyRef tk len show ?thesis by (simp add: create_index_init_store_def)
      next
        case True
        show ?thesis
        proof (cases "hc ! c")
          case (OList xs)
          with dc Inr PyRef True tk len show ?thesis
            by (simp add: create_index_init_store_def)
        next
          case (ODict d)
          from ca nc True ODict have fd: "fresh_dict ?n d"
            using closed_aboveD fresh_obj_ODict by metis
          show ?thesis
          proof (cases "pop ''fields'' d")
            case None
            have "closed_above ?n (hc @ [OList []])"
              using ca by (simp add: closed_above_alloc fresh_obj_empty)
            with dc Inr PyRef True ODict None tk len nc show ?thesis
              by (simp add: create_index_init_store_def owned_def fresh_val_def)
          next
            case (Some p)
            obtain fv rest where p: "p = (fv, rest)" by (cases p)
            with Some have "set rest \<subseteq> set d" by (simp add: set_pop)
            with fd have "fresh_obj ?n (ODict rest)"
              by (simp add: fresh_obj_ODict fresh_dict_subset)
            with ca have ca': "closed_above ?n (hc[c := ODict rest])"
              by (rule closed_above_update)
            from Some p have "map_of d ''fields'' = Some fv"
              by (simp add: pop_def split: option.splits)
            with fd have "fresh_val ?n fv" by (rule fresh_dict_lookup)
            with dc Inr PyRef True ODict Some p tk len nc ca' show ?thesis
              by (simp add: create_index_init_store_def owned_def)
          qed
        qed
      qed
    qed (use dc Inr tk len in \<open>simp_all add: create_index_init_store_def\<close>)
  qed
qed

lemma sample_init:
  "create_index_init_store 10 sample_target (Some ''idx'') (PyRef 2) sample_store =
     (Inr \<lparr>target = sample_target, doc_based = True, index_desc_at = 3,
           index_name_of = Some ''idx'', fields_desc_val = PyRef 4\<rparr>,
      sample_store @
      [ODict [(''type'', PyStr ''SPATIAL'')], OList [PyRef 5], ODict (geo_field True)])"
  by code_simp

lemma sample_execute:
  "create_index_execute_store sample_is_ident sample_connection
     \<lparr>target = sample_target, doc_based = True, index_desc_at = 3,
      index_name_of = Some ''idx'', fields_desc_val = PyRef 4\<rparr>
     (sample_store @
      [ODict [(''type'', PyStr ''SPATIAL'')], OList [PyRef 5], ODict (geo_field True)]) =
   ((Inr (Result_of 1),
     [Execute_nonquery ''mysqlx'' ''create_collection_index'' True
        [(''name'', PyStr ''idx''), (''collection'', PyStr ''t''), (''schema'', PyStr ''s''),
         (''type'', PyStr ''SPATIAL''), (''unique'', PyBool False),
         (''constraint'',
          PyList [PyDict [(''member'', PyStr ''$.loc''), (''type'', PyStr ''GEOJSON''),
                          (''required'', PyBool True)]])]]),
    sample_store @ [ODict [], OList [PyRef 5], ODict []])"
  by code_simp


text \<open>
  The copy keeps what the original shares: when the same field description is listed
  twice, the copy lists one object twice, the first visit of the loop empties it and the
  second finds no \<^verbatim>\<open>field\<close> member. A descriptor given as a value has no such sharing.
\<close>

lemma shared_field_entry:
  "fst (create_index_execute_store sample_is_ident sample_connection
     \<lparr>target = sample_target, doc_based = True, index_desc_at = 3,
      index_name_of = Some ''idx'', fields_desc_val = PyRef 4\<rparr>
     (snd (create_index_init_store 10 sample_target (Some ''idx'') (PyRef 2)
        [ODict (geo_field True), OList [PyRef 0, PyRef 0],
         ODict [(''fields'', PyRef 1), (''type'', PyStr ''SPATIAL'')]]))) =
   (Inl (ProgrammingError ''Required inner member {} not found in constraint: {}''
           [PyStr ''field'', PyDict []]), [])"
  by code_simp

text \<open>
  C10. Whatever the store \<open>h\<close> holds when the statement is constructed, the caller's
  descriptor and its field entries among it, is the same after the constructor and after
  any number \<open>k\<close> of calls of \<^verbatim>\<open>execute\<close>, whether they return or raise: the constructor
  copies the descriptor into new objects, and every \<^verbatim>\<open>pop\<close> of the constructor and of
  \<^verbatim>\<open>execute\<close> goes to an object of that copy.
\<close>

theorem caller_descriptor_untouched:
  "unchanged_below (length h) h (snd (create_index_init_store depth collection name desc h)) \<and>
   (case fst (create_index_init_store depth collection name desc h) of
      Inl e \<Rightarrow> True
    | Inr self \<Rightarrow>
        unchanged_below (length h) h
          (execute_times k is_ident conn self
             (snd (create_index_init_store depth collection name desc h))))"
proof -
  let ?init = "create_index_init_store depth collection name desc h"
  note init = create_index_init_store_frame [of h depth collection name desc]
  then have first: "unchanged_below (length h) h (snd ?init)"
    by (simp add: unchanged_below_def)
  show ?thesis
  proof (cases "fst ?init")
    case (Inl e)
    with first show ?thesis by simp
  next
    case (Inr self)
    with init have "owned (length h) self (snd ?init)" by simp
    from execute_times_frame [OF this, of k is_ident conn] init
    have "unchanged_below (length h) h (execute_times k is_ident conn self (snd ?init))"
      by (simp add: unchanged_below_def)
    with first Inr show ?thesis by simp
  qed
qed


theorem caller_descriptor_untouched_witness:
  "fst (create_index_init_store 10 sample_target (Some ''idx'') (PyRef 2) sample_store) =
     Inr \<lparr>target = sample_target, doc_based = True, index_desc_at = 3,
          index_name_of = Some ''idx'', fields_desc_val = PyRef 4\<rparr> \<and>
   unchanged_below (length sample_store) sample_store
     (execute_times 1 sample_is_ident sample_connection
        \<lparr>target = sample_target, doc_based = True, index_desc_at = 3,
         index_name_of = Some ''idx'', fields_desc_val = PyRef 4\<rparr>
        (snd (create_index_init_store 10 sample_target (Some ''idx'') (PyRef 2) sample_store))) \<and>
   execute_times 1 sample_is_ident sample_connection
        \<lparr>target = sample_target, doc_based = True, index_desc_at = 3,
         index_name_of = Some ''idx'', fields_desc_val = PyRef 4\<rparr>
        (snd (create_index_init_store 10 sample_target (Some ''idx'') (PyRef 2) sample_store)) =
     sample_store @ [ODict [], OList [PyRef 5], ODict []]"
proof -
  let ?self = "\<lparr>target = sample_target, doc_based = True, index_desc_at = 3,
                index_name_of = Some ''idx'', fields_desc_val = PyRef 4\<rparr>"
  let ?init = "create_index_init_store 10 sample_target (Some ''idx'') (PyRef 2) sample_store"
  have a: "fst ?init = Inr ?self"
    by (simp add: sample_init)
  from caller_descriptor_untouched [of sample_store 10 sample_target "Some ''idx''" "PyRef 2"
      1 sample_is_ident sample_connection]
  have b: "unchanged_below (length sample_store) sample_store
             (execute_times 1 sample_is_ident sample_connection ?self (snd ?init))"
    unfolding a by simp
  have c: "execute_times 1 sample_is_ident sample_connection ?self (snd ?init) =
           sample_store @ [ODict [], OList [PyRef 5], ODict []]"
    by (simp add: sample_init sample_execute)
  from a b c show ?thesis by (intro conjI)
qed

end
